theory Spec2Isabelle
  imports Main "HOL-Library.AList" "HOL-Library.Word"
begin

section \<open>Values\<close>

text \<open>
  The input of a validation is an arbitrary JavaScript value. The model covers
  \<open>undefined\<close>, \<open>null\<close>, booleans, numbers, strings, arrays, plain objects (objects whose
  prototype is \<open>Object.prototype\<close> and whose own properties are enumerable data properties)
  and the built-in functions that \<open>Object.prototype\<close> holds, which a read of a property such
  as \<open>constructor\<close> or \<open>toString\<close> yields on every plain object. A number is an integer
  between \<open>-2^53\<close> and \<open>2^53 - 1\<close>: the validation only tests the type of a number,
  compares it with a literal and prints it. An object is the list of its own properties
  in the order in which \<open>Object.keys\<close> enumerates them (array indices first, in ascending
  order); property lookup reads the first entry of a key, so a list with distinct keys is
  exactly a plain object.
\<close>

datatype builtin =
    Constructor
  | HasOwnProperty
  | IsPrototypeOf
  | PropertyIsEnumerable
  | ToLocaleString
  | ToString
  | ValueOf
  | DefineGetter
  | DefineSetter
  | LookupGetter
  | LookupSetter

datatype jsval =
    VUndefined
  | VNull
  | VBool bool
  | VNum "54 word"
  | VStr string
  | VFunction builtin
  | VArr "jsval list"
  | VObj "(string \<times> jsval) list"

text \<open>The function-valued properties of \<open>Object.prototype\<close>.\<close>

definition object_prototype :: "(string \<times> builtin) list" where
  "object_prototype =
     [(''constructor'', Constructor), (''hasOwnProperty'', HasOwnProperty),
      (''isPrototypeOf'', IsPrototypeOf), (''propertyIsEnumerable'', PropertyIsEnumerable),
      (''toLocaleString'', ToLocaleString), (''toString'', ToString), (''valueOf'', ValueOf),
      (''__defineGetter__'', DefineGetter), (''__defineSetter__'', DefineSetter),
      (''__lookupGetter__'', LookupGetter), (''__lookupSetter__'', LookupSetter)]"

text \<open>
  \<open>value[key]\<close>: the own property, else the property that \<open>Object.prototype\<close> holds under
  the key, else \<open>undefined\<close>. The accessor \<open>__proto__\<close> of \<open>Object.prototype\<close> is the one
  inherited property that is left out: its value is no plain object.
\<close>

definition getProp :: "(string \<times> jsval) list \<Rightarrow> string \<Rightarrow> jsval" where
  "getProp props key =
     (case map_of props key of
        Some v \<Rightarrow> v
      | None \<Rightarrow> (case map_of object_prototype key of
                   Some b \<Rightarrow> VFunction b
                 | None \<Rightarrow> VUndefined))"

text \<open>Whether the object owns the key.\<close>

definition ownKey :: "(string \<times> jsval) list \<Rightarrow> string \<Rightarrow> bool" where
  "ownKey props key = (key \<in> set (map fst props))"

text \<open>
  The truth value of the result of a built-in function of \<open>Object.prototype\<close> that is
  called on the object with one string argument, or the message of the error it throws
  (in the wording of Node.js). \<open>toLocaleString\<close> calls the method \<open>toString\<close> of the object
  without an argument.
\<close>

fun builtin_call_basic :: "builtin \<Rightarrow> (string \<times> jsval) list \<Rightarrow> string \<Rightarrow> string + bool" where
  "builtin_call_basic HasOwnProperty props key = Inr (ownKey props key)"
| "builtin_call_basic PropertyIsEnumerable props key = Inr (ownKey props key)"
| "builtin_call_basic IsPrototypeOf props key = Inr False"
| "builtin_call_basic LookupGetter props key = Inr (key = ''__proto__'' \<and> \<not> ownKey props key)"
| "builtin_call_basic LookupSetter props key = Inr (key = ''__proto__'' \<and> \<not> ownKey props key)"
| "builtin_call_basic DefineGetter props key =
     Inl ''Object.prototype.__defineGetter__: Expecting function''"
| "builtin_call_basic DefineSetter props key =
     Inl ''Object.prototype.__defineSetter__: Expecting function''"
| "builtin_call_basic ToLocaleString props key = Inl ''Maximum call stack size exceeded''"
| "builtin_call_basic _ props key = Inr True"

definition builtin_call :: "builtin \<Rightarrow> (string \<times> jsval) list \<Rightarrow> string \<Rightarrow> string + bool" where
  "builtin_call b props key =
     (if b = ToLocaleString
      then (case getProp props ''toString'' of
              VFunction g \<Rightarrow> builtin_call_basic g props ''undefined''
            | _ \<Rightarrow> Inl ''this.toString is not a function'')
      else builtin_call_basic b props key)"

text \<open>
  \<open>value.hasOwnProperty(key)\<close>: the method is looked up on the input itself, so an input
  that owns a property \<open>hasOwnProperty\<close> answers with that property, and the call throws a
  \<open>TypeError\<close> when the property is no function.
\<close>

definition hasOwnProperty :: "(string \<times> jsval) list \<Rightarrow> string \<Rightarrow> string + bool" where
  "hasOwnProperty props key =
     (case getProp props ''hasOwnProperty'' of
        VFunction b \<Rightarrow> builtin_call b props key
      | _ \<Rightarrow> Inl ''value.hasOwnProperty is not a function'')"

text \<open>
  The array index that a key is: the decimal numeral of a number below \<open>2^32 - 1\<close>,
  without a leading zero.
\<close>

definition digit_value :: "char \<Rightarrow> int" where
  "digit_value c = of_char c - 48"

definition is_digit :: "char \<Rightarrow> bool" where
  "is_digit c = (48 \<le> (of_char c :: nat) \<and> (of_char c :: nat) \<le> 57)"

definition array_index :: "string \<Rightarrow> int option" where
  "array_index key =
     (let n = foldl (\<lambda>acc c. 10 * acc + digit_value c) 0 key
      in if key \<noteq> [] \<and> list_all is_digit key \<and> (hd key \<noteq> CHR ''0'' \<or> length key = 1)
            \<and> length key \<le> 10 \<and> n < 4294967295
         then Some n else None)"

text \<open>
  A new property whose key is an array index is enumerated among the array indices, in
  ascending order; any other new property is enumerated last.
\<close>

fun insert_index :: "int \<Rightarrow> string \<times> jsval \<Rightarrow> (string \<times> jsval) list \<Rightarrow> (string \<times> jsval) list" where
  "insert_index n kv [] = [kv]"
| "insert_index n kv (p # ps) =
     (case array_index (fst p) of
        Some m \<Rightarrow> if n < m then kv # p # ps else p # insert_index n kv ps
      | None \<Rightarrow> kv # p # ps)"

text \<open>
  \<open>acc[key] = v\<close>: an existing property is overwritten in place. (A write to the key
  \<open>__proto__\<close> that the object does not own reaches the accessor of \<open>Object.prototype\<close> and
  is left out with it.)
\<close>

definition setProp :: "(string \<times> jsval) list \<Rightarrow> string \<Rightarrow> jsval \<Rightarrow> (string \<times> jsval) list" where
  "setProp acc key v =
     (if ownKey acc key then AList.update key v acc
      else (case array_index key of
              Some n \<Rightarrow> insert_index n (key, v) acc
            | None \<Rightarrow> acc @ [(key, v)]))"

section \<open>Errors\<close>

datatype segment = Key string | Idx nat

record ValidationError =
  message :: string
  path :: "segment list option"

text \<open>\<open>new ValidationError(msg)\<close> leaves the path undefined.\<close>

definition newError :: "string \<Rightarrow> ValidationError" where
  "newError msg = \<lparr>message = msg, path = None\<rparr>"

fun typeOf :: "jsval \<Rightarrow> string" where
  "typeOf VNull = ''null''"
| "typeOf (VArr _) = ''array''"
| "typeOf VUndefined = ''undefined''"
| "typeOf (VBool _) = ''boolean''"
| "typeOf (VNum _) = ''number''"
| "typeOf (VStr _) = ''string''"
| "typeOf (VFunction _) = ''function''"
| "typeOf (VObj _) = ''object''"

subsection \<open>Rendering numbers and strings\<close>

definition digit :: "nat \<Rightarrow> char" where
  "digit d = char_of (48 + d)"

function string_of_nat :: "nat \<Rightarrow> string" where
  "string_of_nat n = (if n < 10 then [digit n] else string_of_nat (n div 10) @ [digit (n mod 10)])"
  by pat_completeness auto
termination
  by (relation "measure id") auto

declare string_of_nat.simps [simp del]

text \<open>The decimal numeral of an integer below \<open>10^21\<close> in magnitude, as \<open>JSON.stringify\<close> prints it.\<close>

definition string_of_int :: "int \<Rightarrow> string" where
  "string_of_int i = (if i < 0 then CHR ''-'' # string_of_nat (nat (- i)) else string_of_nat (nat i))"

definition hexdigit :: "nat \<Rightarrow> char" where
  "hexdigit d = (if d < 10 then char_of (48 + d) else char_of (87 + d))"

text \<open>\<open>JSON.stringify\<close> of a string: quotes, backslashes and control characters are escaped.\<close>

definition json_escape :: "char \<Rightarrow> string" where
  "json_escape c =
     (if c = CHR 0x22 then [CHR 0x5C, CHR 0x22]
      else if c = CHR 0x5C then [CHR 0x5C, CHR 0x5C]
      else if c = CHR 0x08 then [CHR 0x5C, CHR ''b'']
      else if c = CHR 0x0C then [CHR 0x5C, CHR ''f'']
      else if c = CHR 0x0A then [CHR 0x5C, CHR ''n'']
      else if c = CHR 0x0D then [CHR 0x5C, CHR ''r'']
      else if c = CHR 0x09 then [CHR 0x5C, CHR ''t'']
      else if (of_char c :: nat) < 32
        then [CHR 0x5C, CHR ''u'', CHR ''0'', CHR ''0'',
              hexdigit (of_char c div 16), hexdigit (of_char c mod 16)]
      else [c])"

definition json_string :: "string \<Rightarrow> string" where
  "json_string s = [CHR 0x22] @ concat (map json_escape s) @ [CHR 0x22]"

text \<open>\<open>xs.join(sep)\<close>.\<close>

fun join :: "string \<Rightarrow> string list \<Rightarrow> string" where
  "join sep [] = []"
| "join sep [x] = x"
| "join sep (x # y # ys) = x @ sep @ join sep (y # ys)"

text \<open>\<open>JSON.stringify\<close> of an array of strings.\<close>

definition json_string_array :: "string list \<Rightarrow> string" where
  "json_string_array xs = ''['' @ join '','' (map json_string xs) @ '']''"

subsection \<open>Paths\<close>

text \<open>
  \<open>prettyPrintPath\<close> is a \<open>reduce\<close> over the path with the index of the element: a number is
  rendered in brackets, a string bare at index 0 and after a dot elsewhere.
\<close>

fun prettyPrintPath_from :: "nat \<Rightarrow> string \<Rightarrow> segment list \<Rightarrow> string" where
  "prettyPrintPath_from idx acc [] = acc"
| "prettyPrintPath_from idx acc (Idx n # rest) =
     prettyPrintPath_from (Suc idx) (acc @ ''['' @ string_of_nat n @ '']'') rest"
| "prettyPrintPath_from idx acc (Key k # rest) =
     prettyPrintPath_from (Suc idx) (if idx = 0 then acc @ k else acc @ ''.'' @ k) rest"

definition prettyPrintPath :: "segment list \<Rightarrow> string" where
  "prettyPrintPath p = prettyPrintPath_from 0 [] p"

section \<open>Schema nodes\<close>

datatype Literal = LStr string | LNum "54 word" | LBool bool | LUndefined | LNull

fun literal_value :: "Literal \<Rightarrow> jsval" where
  "literal_value (LStr s) = VStr s"
| "literal_value (LNum n) = VNum n"
| "literal_value (LBool b) = VBool b"
| "literal_value LUndefined = VUndefined"
| "literal_value LNull = VNull"

text \<open>
  An option of an options object is not set, set to \<open>undefined\<close>, or set to a boolean.
  A missing options object (\<open>this.opts\<close> or \<open>optOverrides\<close> undefined) spreads to nothing and
  is the record with no option set.
\<close>

datatype optional_bool = Unset | SetUndefined | Set bool

record ObjectOptions =
  allowUnknown :: optional_bool
  suppressPathErrMsg :: optional_bool

record UnionOptions =
  strict :: optional_bool

text \<open>
  The eleven classes. The shape of an object node is the list of its keys with their
  schemas, in the order in which \<open>Object.keys\<close> enumerates the shape. A node constructed
  without options holds the options record with nothing set.
\<close>

datatype schema =
    StringType
  | BooleanType
  | NumberType
  | UndefinedType
  | NullType
  | LiteralType Literal
  | UnknownType
  | ObjectType "(string \<times> schema) list" ObjectOptions
  | ArrayType schema
  | UnionType "schema list" UnionOptions
  | IntersectionType schema schema

definition no_opts :: ObjectOptions where
  "no_opts = \<lparr>allowUnknown = Unset, suppressPathErrMsg = Unset\<rparr>"

text \<open>
  \<open>{ ...a, ...b }\<close>: an option that \<open>b\<close> sets, also to \<open>undefined\<close>, replaces the option of
  \<open>a\<close>.
\<close>

definition spread :: "ObjectOptions \<Rightarrow> ObjectOptions \<Rightarrow> ObjectOptions" where
  "spread a b =
     \<lparr>allowUnknown = (if allowUnknown b = Unset then allowUnknown a else allowUnknown b),
      suppressPathErrMsg =
        (if suppressPathErrMsg b = Unset then suppressPathErrMsg a else suppressPathErrMsg b)\<rparr>"

text \<open>The truth value of an option: only \<open>true\<close> is truthy.\<close>

definition truthy :: "optional_bool \<Rightarrow> bool" where
  "truthy b = (b = Set True)"

fun isObjectType :: "schema \<Rightarrow> bool" where
  "isObjectType (ObjectType _ _) = True"
| "isObjectType _ = False"

fun isArrayType :: "schema \<Rightarrow> bool" where
  "isArrayType (ArrayType _) = True"
| "isArrayType _ = False"

fun isUnknownType :: "schema \<Rightarrow> bool" where
  "isUnknownType UnknownType = True"
| "isUnknownType _ = False"

section \<open>Messages\<close>

text \<open>The rendering of a value in the message of \<open>LiteralType.parse\<close>.\<close>

fun json_literal :: "Literal \<Rightarrow> string" where
  "json_literal (LStr s) = json_string s"
| "json_literal (LNum n) = string_of_int (sint n)"
| "json_literal (LBool b) = (if b then ''true'' else ''false'')"
| "json_literal LUndefined = ''undefined''"
| "json_literal LNull = ''null''"

fun typeofValue :: "jsval \<Rightarrow> string" where
  "typeofValue (VStr s) = json_string s"
| "typeofValue (VNum n) = string_of_int (sint n)"
| "typeofValue (VBool b) = (if b then ''true'' else ''false'')"
| "typeofValue VUndefined = ''undefined''"
| "typeofValue (VFunction _) = ''undefined''"
| "typeofValue v = typeOf v"

text \<open>The two message templates that put a rendered path in front of a child's message.\<close>

definition object_path_msg :: "segment list \<Rightarrow> string \<Rightarrow> string" where
  "object_path_msg p msg =
     ''error parsing object at path: '' @ [CHR 0x22] @ prettyPrintPath p @ [CHR 0x22]
     @ '' - '' @ msg"

definition array_path_msg :: "segment list \<Rightarrow> string \<Rightarrow> string" where
  "array_path_msg p msg = ''error at '' @ prettyPrintPath p @ '' - '' @ msg"

text \<open>The \<open>catch\<close> block of \<open>ObjectType.parse\<close>.\<close>

definition object_catch :: "string \<Rightarrow> ObjectOptions \<Rightarrow> ValidationError \<Rightarrow> ValidationError" where
  "object_catch key opts err =
     (let path' = (case path err of Some p \<Rightarrow> Key key # p | None \<Rightarrow> [Key key]);
          msg = (if truthy (suppressPathErrMsg opts) then message err
                 else object_path_msg path' (message err))
      in \<lparr>message = msg, path = Some path'\<rparr>)"

text \<open>The \<open>catch\<close> block of \<open>ArrayType.parse\<close>.\<close>

definition array_catch :: "nat \<Rightarrow> ObjectOptions \<Rightarrow> ValidationError \<Rightarrow> ValidationError" where
  "array_catch idx opts err =
     (let path' = (case path err of Some p \<Rightarrow> Idx idx # p | None \<Rightarrow> [Idx idx]);
          msg = (if truthy (suppressPathErrMsg opts) then message err
                 else array_path_msg path' (message err))
      in \<lparr>message = msg, path = Some path'\<rparr>)"

text \<open>The error of a declared key of unknown type that the object does not have.\<close>

definition missing_key_error :: "string \<Rightarrow> ValidationError" where
  "missing_key_error key =
     newError (''expected key '' @ [CHR 0x22] @ key @ [CHR 0x22]
               @ '' of unknown type to be present on object'')"

text \<open>The keys of the value that the shape does not declare, and their error.\<close>

definition illegalKeys :: "(string \<times> 'a) list \<Rightarrow> (string \<times> jsval) list \<Rightarrow> string list" where
  "illegalKeys objectShape props =
     filter (\<lambda>x. x \<notin> set (map fst objectShape)) (map fst props)"

definition unexpected_keys_error :: "string list \<Rightarrow> ValidationError" where
  "unexpected_keys_error ks = newError (''unexpected keys on object: '' @ json_string_array ks)"

text \<open>The message of a union none of whose candidates accepted the value.\<close>

definition union_error :: "string list \<Rightarrow> ValidationError" where
  "union_error errors =
     newError (''No union satisfied:'' @ [CHR 0x0A] @ ''  '' @ join ([CHR 0x0A] @ ''  '') errors)"

section \<open>Validation\<close>

text \<open>
  \<open>parse\<close> is the method \<open>parse\<close> of the eleven classes; a thrown \<open>ValidationError\<close> is the
  result \<open>Inl\<close>. The second argument is the options object a caller passes
  (\<open>optOverrides\<close> of \<open>ObjectType.parse\<close>, \<open>opts\<close> of \<open>ArrayType.parse\<close>); a call without one
  passes \<open>no_opts\<close>, and the classes that take no options ignore it.
  \<open>parse_keys\<close> is the loop of \<open>ObjectType.parse\<close> over the declared keys and \<open>parse_key\<close>
  the \<open>try\<close> block of its body; \<open>parse_elems\<close> is the \<open>forEach\<close> of \<open>ArrayType.parse\<close>;
  \<open>parse_union\<close> is the loop of \<open>UnionType.parse\<close> with its list of collected messages.
  An error that the call of \<open>hasOwnProperty\<close> throws inside the \<open>try\<close> block is caught as
  every error is: it has a message and no path.
\<close>

function parse :: "schema \<Rightarrow> ObjectOptions \<Rightarrow> jsval \<Rightarrow> ValidationError + jsval"
and parse_keys :: "(string \<times> schema) list \<Rightarrow> ObjectOptions \<Rightarrow> (string \<times> jsval) list
      \<Rightarrow> (string \<times> jsval) list \<Rightarrow> ValidationError + jsval"
and parse_key :: "string \<Rightarrow> schema \<Rightarrow> ObjectOptions \<Rightarrow> (string \<times> jsval) list
      \<Rightarrow> ValidationError + jsval"
and parse_elems :: "schema \<Rightarrow> ObjectOptions \<Rightarrow> nat \<Rightarrow> jsval list \<Rightarrow> ValidationError + unit"
and parse_union :: "schema list \<Rightarrow> UnionOptions \<Rightarrow> jsval \<Rightarrow> string list
      \<Rightarrow> ValidationError + jsval"
where
  "parse StringType optOverrides v =
     (case v of VStr _ \<Rightarrow> Inr v
      | _ \<Rightarrow> Inl (newError (''expected type to be string but got '' @ typeOf v)))"
| "parse BooleanType optOverrides v =
     (case v of VBool _ \<Rightarrow> Inr v
      | _ \<Rightarrow> Inl (newError (''expected type to be boolean but got '' @ typeOf v)))"
| "parse NumberType optOverrides v =
     (case v of VNum _ \<Rightarrow> Inr v
      | _ \<Rightarrow> Inl (newError (''expected type to be number but got '' @ typeOf v)))"
| "parse UndefinedType optOverrides v =
     (if v \<noteq> VUndefined
      then Inl (newError (''expected type to be undefined but got '' @ typeOf v))
      else Inr v)"
| "parse NullType optOverrides v =
     (if v \<noteq> VNull
      then Inl (newError (''expected type to be null but got '' @ typeOf v))
      else Inr v)"
| "parse (LiteralType literal) optOverrides v =
     (if v \<noteq> literal_value literal
      then Inl (newError (''expected value to be literal '' @ json_literal literal
                            @ '' but got '' @ typeofValue v))
      else Inr v)"
| "parse UnknownType optOverrides v = Inr v"
| "parse (ObjectType objectShape this_opts) optOverrides v =
     (case v of
        VObj props \<Rightarrow>
          (let opts = spread this_opts optOverrides
           in if \<not> truthy (allowUnknown opts) \<and> length (illegalKeys objectShape props) > 0
              then Inl (unexpected_keys_error (illegalKeys objectShape props))
              else parse_keys objectShape opts props props)
      | VNull \<Rightarrow> Inl (newError ''expected object but got null'')
      | VArr _ \<Rightarrow> Inl (newError ''expected type to be regular object but got array'')
      | _ \<Rightarrow> Inl (newError (''expected type to be object but got '' @ typeOf v)))"
| "parse (ArrayType s) opts v =
     (case v of
        VArr elems \<Rightarrow>
          (case parse_elems s opts 0 elems of
             Inl err \<Rightarrow> Inl err
           | Inr _ \<Rightarrow> Inr v)
      | _ \<Rightarrow> Inl (newError (''expected an array but got '' @ typeOf v)))"
| "parse (UnionType schemas this_opts) optOverrides v = parse_union schemas this_opts v []"
| "parse (IntersectionType left right) optOverrides v =
     (case (if isObjectType left
            then parse left \<lparr>allowUnknown = Set True, suppressPathErrMsg = Unset\<rparr> v
            else parse left no_opts v) of
        Inl err \<Rightarrow> Inl err
      | Inr _ \<Rightarrow>
          (case (if isObjectType right
                 then parse right \<lparr>allowUnknown = Set True, suppressPathErrMsg = Unset\<rparr> v
                 else parse right no_opts v) of
             Inl err \<Rightarrow> Inl err
           | Inr _ \<Rightarrow> Inr v))"
| "parse_keys [] opts props acc = Inr (VObj acc)"
| "parse_keys ((key, keySchema) # rest) opts props acc =
     (case parse_key key keySchema opts props of
        Inl err \<Rightarrow> Inl (object_catch key opts err)
      | Inr r \<Rightarrow> parse_keys rest opts props (setProp acc key r))"
| "parse_key key keySchema opts props =
     (case (if isUnknownType keySchema then hasOwnProperty props key else Inr True) of
        Inl msg \<Rightarrow> Inl (newError msg)
      | Inr has \<Rightarrow>
          if isUnknownType keySchema \<and> \<not> has
          then Inl (missing_key_error key)
          else if isObjectType keySchema
            then parse keySchema (opts\<lparr>suppressPathErrMsg := Set True\<rparr>) (getProp props key)
          else if isArrayType keySchema
            then parse keySchema \<lparr>allowUnknown = Unset, suppressPathErrMsg = Set True\<rparr>
                   (getProp props key)
          else parse keySchema no_opts (getProp props key))"
| "parse_elems s opts idx [] = Inr ()"
| "parse_elems s opts idx (elem # rest) =
     (case (if isObjectType s \<or> isArrayType s
            then parse s \<lparr>allowUnknown = Unset, suppressPathErrMsg = Set True\<rparr> elem
            else parse s no_opts elem) of
        Inl err \<Rightarrow> Inl (array_catch idx opts err)
      | Inr _ \<Rightarrow> parse_elems s opts (Suc idx) rest)"
| "parse_union [] this_opts v errors = Inl (union_error errors)"
| "parse_union (s # rest) this_opts v errors =
     (case (if strict this_opts = Set False \<and> isObjectType s
            then parse s \<lparr>allowUnknown = Set True, suppressPathErrMsg = Unset\<rparr> v
            else parse s no_opts v) of
        Inr r \<Rightarrow> Inr r
      | Inl err \<Rightarrow> parse_union rest this_opts v (errors @ [message err]))"

  by pat_completeness auto
termination
  by (relation "measures [
     (\<lambda>x. case x of
         Inl (Inl (s, _, _)) \<Rightarrow> 2 * size s
       | Inl (Inr (shape, _, _, _)) \<Rightarrow> 2 * size_list (size_prod (\<lambda>_. 0) size) shape + 1
       | Inr (Inl (_, s, _, _)) \<Rightarrow> 2 * size s + 1
       | Inr (Inr (Inl (s, _, _, _))) \<Rightarrow> 2 * size s + 1
       | Inr (Inr (Inr (ss, _, _, _))) \<Rightarrow> 2 * size_list size ss + 1),
     (\<lambda>x. case x of Inr (Inr (Inl (_, _, _, xs))) \<Rightarrow> length xs | _ \<Rightarrow> 0)]") auto

declare parse_key.simps [simp del]

text \<open>
  The three places where a composite node validates a child without a key: the body of
  the \<open>try\<close> in \<open>ArrayType.parse\<close>, the body of the \<open>try\<close> in \<open>UnionType.parse\<close> and the
  body of the loop of \<open>IntersectionType.parse\<close>.
\<close>

definition array_elem :: "schema \<Rightarrow> jsval \<Rightarrow> ValidationError + jsval" where
  "array_elem s elem =
     (if isObjectType s \<or> isArrayType s
      then parse s \<lparr>allowUnknown = Unset, suppressPathErrMsg = Set True\<rparr> elem
      else parse s no_opts elem)"

definition union_candidate :: "UnionOptions \<Rightarrow> schema \<Rightarrow> jsval \<Rightarrow> ValidationError + jsval" where
  "union_candidate this_opts s v =
     (if strict this_opts = Set False \<and> isObjectType s
      then parse s \<lparr>allowUnknown = Set True, suppressPathErrMsg = Unset\<rparr> v
      else parse s no_opts v)"

definition intersection_branch :: "schema \<Rightarrow> jsval \<Rightarrow> ValidationError + jsval" where
  "intersection_branch s v =
     (if isObjectType s
      then parse s \<lparr>allowUnknown = Set True, suppressPathErrMsg = Unset\<rparr> v
      else parse s no_opts v)"

section \<open>The structure of a message\<close>

text \<open>
  A message as the nodes build it: the message of a check of a node (or of an error that
  a built-in throws), a message that an object or an array node puts its path prefix in
  front of, and the messages that a union collects. \<open>render\<close> is the string, \<open>prefixes\<close>
  the number of path prefixes.
\<close>

datatype trace =
    Own string
  | ObjectPath "segment list" trace
  | ArrayPath "segment list" trace
  | NoUnion "trace list"

fun render :: "trace \<Rightarrow> string" where
  "render (Own m) = m"
| "render (ObjectPath p t) = object_path_msg p (render t)"
| "render (ArrayPath p t) = array_path_msg p (render t)"
| "render (NoUnion ts) = message (union_error (map render ts))"

fun prefixes :: "trace \<Rightarrow> nat" where
  "prefixes (Own m) = 0"
| "prefixes (ObjectPath p t) = Suc (prefixes t)"
| "prefixes (ArrayPath p t) = Suc (prefixes t)"
| "prefixes (NoUnion ts) = sum_list (map prefixes ts)"

text \<open>An error whose message is kept as it is built.\<close>

type_synonym traced_error = "trace \<times> segment list option"

definition error_of :: "traced_error \<Rightarrow> ValidationError" where
  "error_of e = \<lparr>message = render (fst e), path = snd e\<rparr>"

definition object_catch_traced :: "string \<Rightarrow> ObjectOptions \<Rightarrow> traced_error \<Rightarrow> traced_error" where
  "object_catch_traced key opts err =
     (let path' = (case snd err of Some p \<Rightarrow> Key key # p | None \<Rightarrow> [Key key]);
          msg = (if truthy (suppressPathErrMsg opts) then fst err
                 else ObjectPath path' (fst err))
      in (msg, Some path'))"

definition array_catch_traced :: "nat \<Rightarrow> ObjectOptions \<Rightarrow> traced_error \<Rightarrow> traced_error" where
  "array_catch_traced idx opts err =
     (let path' = (case snd err of Some p \<Rightarrow> Idx idx # p | None \<Rightarrow> [Idx idx]);
          msg = (if truthy (suppressPathErrMsg opts) then fst err
                 else ArrayPath path' (fst err))
      in (msg, Some path'))"

text \<open>
  The validation once more, with the message of an error kept as it is built;
  \<open>parse_traced_agrees\<close> shows that it is \<open>parse\<close> with the message rendered.
\<close>

function parse_traced :: "schema \<Rightarrow> ObjectOptions \<Rightarrow> jsval \<Rightarrow> traced_error + jsval"
and parse_keys_traced :: "(string \<times> schema) list \<Rightarrow> ObjectOptions \<Rightarrow> (string \<times> jsval) list
      \<Rightarrow> (string \<times> jsval) list \<Rightarrow> traced_error + jsval"
and parse_key_traced :: "string \<Rightarrow> schema \<Rightarrow> ObjectOptions \<Rightarrow> (string \<times> jsval) list
      \<Rightarrow> traced_error + jsval"
and parse_elems_traced :: "schema \<Rightarrow> ObjectOptions \<Rightarrow> nat \<Rightarrow> jsval list \<Rightarrow> traced_error + unit"
and parse_union_traced :: "schema list \<Rightarrow> UnionOptions \<Rightarrow> jsval \<Rightarrow> trace list
      \<Rightarrow> traced_error + jsval"
where
  "parse_traced (ObjectType objectShape this_opts) optOverrides v =
     (case v of
        VObj props \<Rightarrow>
          (let opts = spread this_opts optOverrides
           in if \<not> truthy (allowUnknown opts) \<and> length (illegalKeys objectShape props) > 0
              then Inl (Own (message (unexpected_keys_error (illegalKeys objectShape props))), None)
              else parse_keys_traced objectShape opts props props)
      | _ \<Rightarrow> (case parse (ObjectType objectShape this_opts) optOverrides v of
                Inl err \<Rightarrow> Inl (Own (message err), None)
              | Inr r \<Rightarrow> Inr r))"
| "parse_traced (ArrayType s) opts v =
     (case v of
        VArr elems \<Rightarrow>
          (case parse_elems_traced s opts 0 elems of
             Inl err \<Rightarrow> Inl err
           | Inr _ \<Rightarrow> Inr v)
      | _ \<Rightarrow> Inl (Own (''expected an array but got '' @ typeOf v), None))"
| "parse_traced (UnionType schemas this_opts) optOverrides v =
     parse_union_traced schemas this_opts v []"
| "parse_traced (IntersectionType left right) optOverrides v =
     (case (if isObjectType left
            then parse_traced left \<lparr>allowUnknown = Set True, suppressPathErrMsg = Unset\<rparr> v
            else parse_traced left no_opts v) of
        Inl err \<Rightarrow> Inl err
      | Inr _ \<Rightarrow>
          (case (if isObjectType right
                 then parse_traced right \<lparr>allowUnknown = Set True, suppressPathErrMsg = Unset\<rparr> v
                 else parse_traced right no_opts v) of
             Inl err \<Rightarrow> Inl err
           | Inr _ \<Rightarrow> Inr v))"
| "parse_traced StringType opts v =
     (case parse StringType opts v of Inl err \<Rightarrow> Inl (Own (message err), None) | Inr r \<Rightarrow> Inr r)"
| "parse_traced BooleanType opts v =
     (case parse BooleanType opts v of Inl err \<Rightarrow> Inl (Own (message err), None) | Inr r \<Rightarrow> Inr r)"
| "parse_traced NumberType opts v =
     (case parse NumberType opts v of Inl err \<Rightarrow> Inl (Own (message err), None) | Inr r \<Rightarrow> Inr r)"
| "parse_traced UndefinedType opts v =
     (case parse UndefinedType opts v of Inl err \<Rightarrow> Inl (Own (message err), None) | Inr r \<Rightarrow> Inr r)"
| "parse_traced NullType opts v =
     (case parse NullType opts v of Inl err \<Rightarrow> Inl (Own (message err), None) | Inr r \<Rightarrow> Inr r)"
| "parse_traced (LiteralType l) opts v =
     (case parse (LiteralType l) opts v of
        Inl err \<Rightarrow> Inl (Own (message err), None) | Inr r \<Rightarrow> Inr r)"
| "parse_traced UnknownType opts v = Inr v"
| "parse_keys_traced [] opts props acc = Inr (VObj acc)"
| "parse_keys_traced ((key, keySchema) # rest) opts props acc =
     (case parse_key_traced key keySchema opts props of
        Inl err \<Rightarrow> Inl (object_catch_traced key opts err)
      | Inr r \<Rightarrow> parse_keys_traced rest opts props (setProp acc key r))"
| "parse_key_traced key keySchema opts props =
     (case (if isUnknownType keySchema then hasOwnProperty props key else Inr True) of
        Inl msg \<Rightarrow> Inl (Own msg, None)
      | Inr has \<Rightarrow>
          if isUnknownType keySchema \<and> \<not> has
          then Inl (Own (message (missing_key_error key)), None)
          else if isObjectType keySchema
            then parse_traced keySchema (opts\<lparr>suppressPathErrMsg := Set True\<rparr>) (getProp props key)
          else if isArrayType keySchema
            then parse_traced keySchema \<lparr>allowUnknown = Unset, suppressPathErrMsg = Set True\<rparr>
                   (getProp props key)
          else parse_traced keySchema no_opts (getProp props key))"
| "parse_elems_traced s opts idx [] = Inr ()"
| "parse_elems_traced s opts idx (elem # rest) =
     (case (if isObjectType s \<or> isArrayType s
            then parse_traced s \<lparr>allowUnknown = Unset, suppressPathErrMsg = Set True\<rparr> elem
            else parse_traced s no_opts elem) of
        Inl err \<Rightarrow> Inl (array_catch_traced idx opts err)
      | Inr _ \<Rightarrow> parse_elems_traced s opts (Suc idx) rest)"
| "parse_union_traced [] this_opts v errors = Inl (NoUnion errors, None)"
| "parse_union_traced (s # rest) this_opts v errors =
     (case (if strict this_opts = Set False \<and> isObjectType s
            then parse_traced s \<lparr>allowUnknown = Set True, suppressPathErrMsg = Unset\<rparr> v
            else parse_traced s no_opts v) of
        Inr r \<Rightarrow> Inr r
      | Inl err \<Rightarrow> parse_union_traced rest this_opts v (errors @ [fst err]))"
  by pat_completeness auto
termination
  by (relation "measures [
     (\<lambda>x. case x of
         Inl (Inl (s, _, _)) \<Rightarrow> 2 * size s
       | Inl (Inr (shape, _, _, _)) \<Rightarrow> 2 * size_list (size_prod (\<lambda>_. 0) size) shape + 1
       | Inr (Inl (_, s, _, _)) \<Rightarrow> 2 * size s + 1
       | Inr (Inr (Inl (s, _, _, _))) \<Rightarrow> 2 * size s + 1
       | Inr (Inr (Inr (ss, _, _, _))) \<Rightarrow> 2 * size_list size ss + 1),
     (\<lambda>x. case x of Inr (Inr (Inl (_, _, _, xs))) \<Rightarrow> length xs | _ \<Rightarrow> 0)]") auto

declare parse_key_traced.simps [simp del]

section \<open>Predicates on schemas and values\<close>

text \<open>
  A schema is \<open>quiet\<close> when it contains no object and no array node; none of its failures
  has a path. In a \<open>one_prefix\<close> schema every union, and every intersection that is the
  child of an object or array node, is quiet: object and array nodes pass the suppression
  flag to object and array children only.
\<close>

fun quiet :: "schema \<Rightarrow> bool" where
  "quiet (ObjectType _ _) = False"
| "quiet (ArrayType _) = False"
| "quiet (UnionType schemas _) = (\<forall>s \<in> set schemas. quiet s)"
| "quiet (IntersectionType left right) = (quiet left \<and> quiet right)"
| "quiet _ = True"

fun one_prefix :: "schema \<Rightarrow> bool" where
  "one_prefix (ObjectType objectShape _) =
     (\<forall>(k, s) \<in> set objectShape.
        if isObjectType s \<or> isArrayType s then one_prefix s else quiet s)"
| "one_prefix (ArrayType s) = (if isObjectType s \<or> isArrayType s then one_prefix s else quiet s)"
| "one_prefix (UnionType schemas _) = (\<forall>s \<in> set schemas. quiet s)"
| "one_prefix (IntersectionType left right) = (one_prefix left \<and> one_prefix right)"
| "one_prefix _ = True"

text \<open>
  Whether the call at the root suppresses the path prefix: through the options of the
  call, the options of an object node at the root, or the options of an object node that
  is a branch of an intersection at the root.
\<close>

fun root_suppressed :: "schema \<Rightarrow> ObjectOptions \<Rightarrow> bool" where
  "root_suppressed (ObjectType _ this_opts) optOverrides =
     truthy (suppressPathErrMsg (spread this_opts optOverrides))"
| "root_suppressed (ArrayType _) opts = truthy (suppressPathErrMsg opts)"
| "root_suppressed (IntersectionType left right) opts =
     (root_suppressed left no_opts \<or> root_suppressed right no_opts)"
| "root_suppressed _ _ = False"

text \<open>
  The keys that \<open>Object.prototype\<close> defines. In a well-formed schema the keys of every
  shape are distinct, as the keys of a JavaScript object are, and none of them is
  inherited.
\<close>

definition inherited_key :: "string \<Rightarrow> bool" where
  "inherited_key key = (key = ''__proto__'' \<or> map_of object_prototype key \<noteq> None)"

fun wf_schema :: "schema \<Rightarrow> bool" where
  "wf_schema (ObjectType objectShape _) =
     (distinct (map fst objectShape)
      \<and> (\<forall>(k, s) \<in> set objectShape. \<not> inherited_key k \<and> wf_schema s))"
| "wf_schema (ArrayType s) = wf_schema s"
| "wf_schema (UnionType schemas _) = (\<forall>s \<in> set schemas. wf_schema s)"
| "wf_schema (IntersectionType left right) = (wf_schema left \<and> wf_schema right)"
| "wf_schema _ = True"

text \<open>
  \<open>returns_input\<close>: the node contains no object node outside array and intersection
  nodes, which return their input. \<open>stable_schema\<close>: outside array and intersection
  nodes, every candidate of a union but the first returns its input.
\<close>

fun returns_input :: "schema \<Rightarrow> bool" where
  "returns_input (ObjectType _ _) = False"
| "returns_input (UnionType schemas _) = (\<forall>s \<in> set schemas. returns_input s)"
| "returns_input _ = True"

fun stable_schema :: "schema \<Rightarrow> bool" where
  "stable_schema (ObjectType objectShape _) = (\<forall>(k, s) \<in> set objectShape. stable_schema s)"
| "stable_schema (UnionType [] _) = True"
| "stable_schema (UnionType (s # rest) _) = (stable_schema s \<and> (\<forall>t \<in> set rest. returns_input t))"
| "stable_schema _ = True"

text \<open>A value without the properties that hold \<open>undefined\<close>, at every depth.\<close>

fun strip_undefined :: "jsval \<Rightarrow> jsval" where
  "strip_undefined (VArr elems) = VArr (map strip_undefined elems)"
| "strip_undefined (VObj props) =
     VObj (filter (\<lambda>(k, v). v \<noteq> VUndefined) (map (\<lambda>(k, v). (k, strip_undefined v)) props))"
| "strip_undefined v = v"

section \<open>Array nodes return their input\<close>

text \<open>
  C7. A successful array validation returns the input sequence itself: the results of the
  element validations are dropped, also where an element's validation returns a value
  that differs from the element (an object element that gains a declared key).
\<close>

theorem array_returns_input:
  "parse (ArrayType s) opts v = Inr r \<Longrightarrow> r = v"
  by (cases v) (auto split: sum.splits)

theorem array_returns_input_witness:
  "parse (ArrayType (ObjectType [(''a'', UnionType [StringType, UndefinedType] \<lparr>strict = Unset\<rparr>)] no_opts))
     no_opts (VArr [VObj []]) = Inr (VArr [VObj []])
   \<and> parse (ObjectType [(''a'', UnionType [StringType, UndefinedType] \<lparr>strict = Unset\<rparr>)] no_opts)
       \<lparr>allowUnknown = Unset, suppressPathErrMsg = Set True\<rparr> (VObj [])
     = Inr (VObj [(''a'', VUndefined)])"
proof -
  let ?S = "ObjectType [(''a'', UnionType [StringType, UndefinedType] \<lparr>strict = Unset\<rparr>)] no_opts"
  have elem: "parse ?S \<lparr>allowUnknown = Unset, suppressPathErrMsg = Set True\<rparr> (VObj [])
    = Inr (VObj [(''a'', VUndefined)])"
    by code_simp
  have "parse (ArrayType ?S) no_opts (VArr [VObj []]) \<noteq> Inl e" for e
    by code_simp
  then obtain r where r: "parse (ArrayType ?S) no_opts (VArr [VObj []]) = Inr r"
    by (metis sum.exhaust)
  from array_returns_input [OF r] r elem show ?thesis by simp
qed

section \<open>Union nodes\<close>

lemma parse_union_all_fail:
  "map (\<lambda>s. union_candidate this_opts s v) ss = map Inl es \<Longrightarrow>
   parse_union ss this_opts v errors = Inl (union_error (errors @ map message es))"
proof (induction ss arbitrary: es errors)
  case Nil
  then show ?case by simp
next
  case (Cons s ss)
  then obtain e es' where es: "es = e # es'" "union_candidate this_opts s v = Inl e"
    "map (\<lambda>s. union_candidate this_opts s v) ss = map Inl es'"
    by (cases es) auto
  from es(2) have "parse_union (s # ss) this_opts v errors
      = parse_union ss this_opts v (errors @ [message e])"
    by (simp add: union_candidate_def)
  with Cons.IH [OF es(3)] es(1) show ?case by simp
qed

lemma parse_union_first_match:
  "map (\<lambda>s. union_candidate this_opts s v) pre = map Inl es \<Longrightarrow>
   union_candidate this_opts s v = Inr r \<Longrightarrow>
   parse_union (pre @ s # post) this_opts v errors = Inr r"
proof (induction pre arbitrary: es errors)
  case Nil
  then show ?case by (simp add: union_candidate_def)
next
  case (Cons c pre)
  then obtain e es' where es: "es = e # es'" "union_candidate this_opts c v = Inl e"
    "map (\<lambda>s. union_candidate this_opts s v) pre = map Inl es'"
    by (cases es) auto
  from es(2) have "parse_union ((c # pre) @ s # post) this_opts v errors
      = parse_union (pre @ s # post) this_opts v (errors @ [message e])"
    by (simp add: union_candidate_def)
  with Cons.IH [OF es(3) Cons.prems(2)] show ?case by simp
qed

lemma parse_union_fails_only_if:
  "parse_union ss this_opts v errors = Inl e \<Longrightarrow>
   \<exists>es. map (\<lambda>s. union_candidate this_opts s v) ss = map Inl es
      \<and> e = union_error (errors @ map message es)"
proof (induction ss arbitrary: errors)
  case Nil
  then show ?case by simp
next
  case (Cons s ss)
  show ?case
  proof (cases "union_candidate this_opts s v")
    case (Inl err)
    with Cons.prems have "parse_union ss this_opts v (errors @ [message err]) = Inl e"
      by (simp add: union_candidate_def)
    from Cons.IH [OF this] obtain es where
      "map (\<lambda>s. union_candidate this_opts s v) ss = map Inl es"
      "e = union_error ((errors @ [message err]) @ map message es)" by blast
    with Inl have "map (\<lambda>s. union_candidate this_opts s v) (s # ss) = map Inl (err # es)
      \<and> e = union_error (errors @ map message (err # es))" by simp
    then show ?thesis by blast
  next
    case (Inr r)
    with Cons.prems show ?thesis by (simp add: union_candidate_def)
  qed
qed

text \<open>
  C3. A union tries its candidates in the declared order, an object candidate with
  \<open>allowUnknown\<close> forced when \<open>strict\<close> is \<open>false\<close> (\<open>union_candidate\<close>). The first candidate
  that succeeds gives the result, whatever the candidates after it are. The union fails
  exactly when every candidate fails, with the messages of all candidates, each on a line
  of its own after the heading, and without a path.
\<close>

theorem union_first_match_wins:
  "(map (\<lambda>s. union_candidate this_opts s v) pre = map Inl es
      \<and> union_candidate this_opts s v = Inr r
    \<longrightarrow> parse (UnionType (pre @ s # post) this_opts) opts v = Inr r)
   \<and> (map (\<lambda>s. union_candidate this_opts s v) ss = map Inl es
    \<longrightarrow> parse (UnionType ss this_opts) opts v
        = Inl \<lparr>message = ''No union satisfied:'' @ [CHR 0x0A] @ ''  ''
                            @ join ([CHR 0x0A] @ ''  '') (map message es),
               path = None\<rparr>)
   \<and> (parse (UnionType ss this_opts) opts v = Inl e
    \<longrightarrow> (\<exists>es'. map (\<lambda>s. union_candidate this_opts s v) ss = map Inl es'
          \<and> e = union_error (map message es')))"
proof (intro conjI impI)
  assume "map (\<lambda>s. union_candidate this_opts s v) pre = map Inl es
      \<and> union_candidate this_opts s v = Inr r"
  then show "parse (UnionType (pre @ s # post) this_opts) opts v = Inr r"
    by (simp add: parse_union_first_match)
next
  assume "map (\<lambda>s. union_candidate this_opts s v) ss = map Inl es"
  from parse_union_all_fail [OF this, of "[]"]
  show "parse (UnionType ss this_opts) opts v
        = Inl \<lparr>message = ''No union satisfied:'' @ [CHR 0x0A] @ ''  ''
                            @ join ([CHR 0x0A] @ ''  '') (map message es),
               path = None\<rparr>"
    by (simp add: union_error_def newError_def)
next
  assume "parse (UnionType ss this_opts) opts v = Inl e"
  then have "parse_union ss this_opts v [] = Inl e" by simp
  from parse_union_fails_only_if [OF this]
  show "\<exists>es'. map (\<lambda>s. union_candidate this_opts s v) ss = map Inl es'
          \<and> e = union_error (map message es')" by simp
qed

theorem union_first_match_wins_witness:
  "parse (UnionType [StringType, ObjectType [(''a'', StringType)] no_opts, UnknownType]
            \<lparr>strict = Set False\<rparr>) no_opts (VObj [(''a'', VStr ''x''), (''b'', VNum 1)])
     = Inr (VObj [(''a'', VStr ''x''), (''b'', VNum 1)])
   \<and> parse (UnionType [StringType, NumberType] \<lparr>strict = Unset\<rparr>) no_opts (VBool True)
     = Inl \<lparr>message = ''No union satisfied:'' @ [CHR 0x0A] @ ''  ''
               @ ''expected type to be string but got boolean'' @ [CHR 0x0A] @ ''  ''
               @ ''expected type to be number but got boolean'',
            path = None\<rparr>
   \<and> (\<exists>es'. map (\<lambda>s. union_candidate \<lparr>strict = Unset\<rparr> s (VBool True)) [StringType, NumberType]
            = map Inl es')"
proof -
  let ?o = "\<lparr>strict = Set False\<rparr>"
  let ?v = "VObj [(''a'', VStr ''x''), (''b'', VNum 1)]"
  let ?e = "newError ''expected type to be string but got object''"
  let ?es = "[newError ''expected type to be string but got boolean'',
              newError ''expected type to be number but got boolean'']"
  have pre: "map (\<lambda>s. union_candidate ?o s ?v) [StringType] = map Inl [?e]"
    by code_simp
  have hit: "union_candidate ?o (ObjectType [(''a'', StringType)] no_opts) ?v = Inr ?v"
    by code_simp
  have first: "parse (UnionType ([StringType] @ ObjectType [(''a'', StringType)] no_opts # [UnknownType]) ?o)
                 no_opts ?v = Inr ?v"
    using union_first_match_wins [where this_opts = ?o and v = ?v and pre = "[StringType]"
        and es = "[?e]" and s = "ObjectType [(''a'', StringType)] no_opts" and r = ?v
        and post = "[UnknownType]" and opts = no_opts] pre hit
    by blast
  have fails: "map (\<lambda>s. union_candidate \<lparr>strict = Unset\<rparr> s (VBool True)) [StringType, NumberType]
      = map Inl ?es"
    by code_simp
  have all: "parse (UnionType [StringType, NumberType] \<lparr>strict = Unset\<rparr>) no_opts (VBool True)
     = Inl \<lparr>message = ''No union satisfied:'' @ [CHR 0x0A] @ ''  ''
                            @ join ([CHR 0x0A] @ ''  '') (map message ?es),
            path = None\<rparr>"
    using union_first_match_wins [where this_opts = "\<lparr>strict = Unset\<rparr>" and v = "VBool True"
        and ss = "[StringType, NumberType]" and es = ?es and opts = no_opts] fails
    by blast
  have only: "\<exists>es'. map (\<lambda>s. union_candidate \<lparr>strict = Unset\<rparr> s (VBool True)) [StringType, NumberType]
            = map Inl es'"
    using union_first_match_wins [where this_opts = "\<lparr>strict = Unset\<rparr>" and v = "VBool True"
        and ss = "[StringType, NumberType]" and opts = no_opts
        and e = "\<lparr>message = ''No union satisfied:'' @ [CHR 0x0A] @ ''  ''
                            @ join ([CHR 0x0A] @ ''  '') (map message ?es),
            path = None\<rparr>"] all
    by blast
  from first all only show ?thesis by (simp add: newError_def)
qed

section \<open>Intersection nodes\<close>

text \<open>
  C4. An intersection validates the left node and then the right node, an object node
  with \<open>allowUnknown\<close> forced (\<open>intersection_branch\<close>). When both succeed the result is the
  input itself, not the result of a branch; the error of the left branch is raised when
  it fails, that of the right branch when only it fails.
\<close>

theorem intersection_returns_input:
  "(intersection_branch left v = Inr a \<and> intersection_branch right v = Inr b
      \<longrightarrow> parse (IntersectionType left right) opts v = Inr v)
   \<and> (intersection_branch left v = Inl e
      \<longrightarrow> parse (IntersectionType left right) opts v = Inl e)
   \<and> (intersection_branch left v = Inr a \<and> intersection_branch right v = Inl e
      \<longrightarrow> parse (IntersectionType left right) opts v = Inl e)"
  by (simp add: intersection_branch_def)


theorem intersection_returns_input_witness:
  "intersection_branch
       (ObjectType [(''a'', UnionType [StringType, UndefinedType] \<lparr>strict = Unset\<rparr>)] no_opts)
       (VObj [(''b'', VNum 1)])
     = Inr (VObj [(''b'', VNum 1), (''a'', VUndefined)])
   \<and> parse (IntersectionType
        (ObjectType [(''a'', UnionType [StringType, UndefinedType] \<lparr>strict = Unset\<rparr>)] no_opts)
        (ObjectType [(''b'', NumberType)] no_opts)) no_opts (VObj [(''b'', VNum 1)])
     = Inr (VObj [(''b'', VNum 1)])
   \<and> parse (IntersectionType StringType NumberType) no_opts (VBool True)
     = Inl (newError ''expected type to be string but got boolean'')
   \<and> parse (IntersectionType UnknownType NumberType) no_opts (VBool True)
     = Inl (newError ''expected type to be number but got boolean'')"
proof -
  let ?l = "ObjectType [(''a'', UnionType [StringType, UndefinedType] \<lparr>strict = Unset\<rparr>)] no_opts"
  let ?r = "ObjectType [(''b'', NumberType)] no_opts"
  let ?v = "VObj [(''b'', VNum 1)]"
  have l: "intersection_branch ?l ?v = Inr (VObj [(''b'', VNum 1), (''a'', VUndefined)])"
    by code_simp
  have r: "intersection_branch ?r ?v = Inr ?v"
    by code_simp
  have both: "parse (IntersectionType ?l ?r) no_opts ?v = Inr ?v"
    using intersection_returns_input [where left = ?l and right = ?r and v = ?v
        and a = "VObj [(''b'', VNum 1), (''a'', VUndefined)]" and b = ?v and opts = no_opts] l r
    by blast
  have lf: "intersection_branch StringType (VBool True)
      = Inl (newError ''expected type to be string but got boolean'')"
    by code_simp
  have left_fails: "parse (IntersectionType StringType NumberType) no_opts (VBool True)
      = Inl (newError ''expected type to be string but got boolean'')"
    using intersection_returns_input [where left = StringType and right = NumberType
        and v = "VBool True" and opts = no_opts
        and e = "newError ''expected type to be string but got boolean''"] lf
    by blast
  have rl: "intersection_branch UnknownType (VBool True) = Inr (VBool True)"
    by code_simp
  have rf: "intersection_branch NumberType (VBool True)
      = Inl (newError ''expected type to be number but got boolean'')"
    by code_simp
  have right_fails: "parse (IntersectionType UnknownType NumberType) no_opts (VBool True)
      = Inl (newError ''expected type to be number but got boolean'')"
    using intersection_returns_input [where left = UnknownType and right = NumberType
        and v = "VBool True" and opts = no_opts and a = "VBool True"
        and e = "newError ''expected type to be number but got boolean''"] rl rf
    by blast
  from l both left_fails right_fails show ?thesis by simp
qed

section \<open>Object nodes\<close>

lemma map_of_insert_index:
  "k \<notin> set (map fst acc) \<Longrightarrow> map_of (insert_index n (k, v) acc) = (map_of acc)(k \<mapsto> v)"
proof (induction acc)
  case Nil
  then show ?case by simp
next
  case (Cons p ps)
  then have "fst p \<noteq> k" and "map_of (insert_index n (k, v) ps) = (map_of ps)(k \<mapsto> v)"
    by auto
  then show ?case
    by (cases p) (auto simp: fun_eq_iff split: option.splits)
qed

lemma keys_insert_index:
  "fst ` set (insert_index n (k, v) acc) = insert k (fst ` set acc)"
  by (induction acc) (auto split: option.splits)

lemma keys_update: "fst ` set (AList.update k v acc) = insert k (fst ` set acc)"
proof -
  have "set (map fst (AList.update k v acc)) = insert k (set (map fst acc))"
    by (simp only: update_keys) auto
  then show ?thesis by simp
qed

lemma map_of_setProp: "map_of (setProp acc k v) = (map_of acc)(k \<mapsto> v)"
proof (cases "ownKey acc k")
  case True
  then show ?thesis by (simp add: setProp_def update_conv')
next
  case False
  then have k: "k \<notin> set (map fst acc)" by (simp add: ownKey_def)
  then have "map_of acc k = None" by (simp add: map_of_eq_None_iff)
  then have "map_of (acc @ [(k, v)]) = (map_of acc)(k \<mapsto> v)"
    by (auto simp: fun_eq_iff map_add_def split: option.splits)
  with False map_of_insert_index [OF k] show ?thesis
    by (simp add: setProp_def split: option.splits)
qed

lemma keys_setProp: "fst ` set (setProp acc k v) = insert k (fst ` set acc)"
  by (simp add: setProp_def keys_update keys_insert_index split: option.splits)

lemma parse_keys_success:
  "parse_keys shape opts props acc = Inr r \<Longrightarrow> distinct (map fst shape) \<Longrightarrow>
   \<exists>acc'. r = VObj acc'
     \<and> set (map fst acc') = set (map fst acc) \<union> set (map fst shape)
     \<and> (\<forall>(k, s) \<in> set shape. \<exists>rk. parse_key k s opts props = Inr rk \<and> map_of acc' k = Some rk)
     \<and> (\<forall>k. k \<notin> set (map fst shape) \<longrightarrow> map_of acc' k = map_of acc k)"
proof (induction shape arbitrary: acc)
  case Nil
  then show ?case by auto
next
  case (Cons ks rest)
  obtain k s where ks: "ks = (k, s)" by (cases ks)
  from Cons.prems(1) ks obtain rk where
    rk: "parse_key k s opts props = Inr rk" and
    rest: "parse_keys rest opts props (setProp acc k rk) = Inr r"
    by (auto split: sum.splits)
  from Cons.prems(2) ks have d: "distinct (map fst rest)" and knew: "k \<notin> set (map fst rest)"
    by auto
  from Cons.IH [OF rest d] obtain acc' where
    r: "r = VObj acc'" and
    keys: "set (map fst acc') = set (map fst (setProp acc k rk)) \<union> set (map fst rest)" and
    decl: "\<forall>(k', s') \<in> set rest. \<exists>rk'. parse_key k' s' opts props = Inr rk' \<and> map_of acc' k' = Some rk'" and
    other: "\<forall>k'. k' \<notin> set (map fst rest) \<longrightarrow> map_of acc' k' = map_of (setProp acc k rk) k'"
    by blast
  have k_holds: "map_of acc' k = Some rk"
    using other knew by (simp add: map_of_setProp)
  have others: "\<forall>k'. k' \<notin> set (map fst (ks # rest)) \<longrightarrow> map_of acc' k' = map_of acc k'"
    using other ks by (simp add: map_of_setProp)
  have keys': "set (map fst acc') = set (map fst acc) \<union> set (map fst (ks # rest))"
    using keys ks by (simp add: keys_setProp)
  from r keys' k_holds decl others rk ks show ?case
    by auto
qed

lemma parse_object_cases:
  "parse (ObjectType shape this_opts) optOverrides v = Inr r \<Longrightarrow>
   \<exists>props. v = VObj props
     \<and> parse_keys shape (spread this_opts optOverrides) props props = Inr r
     \<and> (truthy (allowUnknown (spread this_opts optOverrides)) \<or> illegalKeys shape props = [])"
  by (cases v) (auto simp: Let_def split: if_splits)



lemma parse_keys_first_failure:
  "\<forall>(k', s') \<in> set pre. \<exists>r. parse_key k' s' opts props = Inr r \<Longrightarrow>
   parse_key k s opts props = Inl err \<Longrightarrow>
   parse_keys (pre @ (k, s) # post) opts props acc = Inl (object_catch k opts err)"
proof (induction pre arbitrary: acc)
  case Nil
  then show ?case by (simp del: parse_key.simps)
next
  case (Cons ks pre)
  obtain k' s' where ks: "ks = (k', s')" by (cases ks)
  with Cons.prems(1) obtain r where "parse_key k' s' opts props = Inr r" by auto
  moreover from Cons.prems(1) have "\<forall>(k', s') \<in> set pre. \<exists>r. parse_key k' s' opts props = Inr r"
    by simp
  ultimately show ?case
    using Cons.IH [OF _ Cons.prems(2)] ks by (simp del: parse_key.simps)
qed

lemma parse_keys_error_path:
  "parse_keys shape opts props acc = Inl e \<Longrightarrow>
   \<exists>k p. path e = Some (Key k # p) \<and> k \<in> set (map fst shape)"
proof (induction shape arbitrary: acc)
  case Nil
  then show ?case by simp
next
  case (Cons ks rest)
  obtain k s where ks: "ks = (k, s)" by (cases ks)
  show ?case
  proof (cases "parse_key k s opts props")
    case (Inl err)
    with Cons.prems ks have "e = object_catch k opts err" by (simp del: parse_key.simps)
    then show ?thesis using ks by (auto simp: object_catch_def Let_def split: option.splits)
  next
    case (Inr r)
    with Cons.prems ks have "parse_keys rest opts props (setProp acc k r) = Inl e"
      by (simp del: parse_key.simps)
    from Cons.IH [OF this] show ?thesis by auto
  qed
qed

text \<open>
  C6. Without \<open>allowUnknown\<close>, an input with undeclared keys fails with one error that
  lists all of them and has no path, whatever the children would do. With \<open>allowUnknown\<close>
  the validation goes on to the declared keys, and an error it raises comes from a
  declared key: its path begins with that key.
\<close>

theorem unknown_keys_rejected:
  "(\<not> truthy (allowUnknown (spread this_opts optOverrides)) \<and> illegalKeys shape props \<noteq> []
      \<longrightarrow> parse (ObjectType shape this_opts) optOverrides (VObj props)
          = Inl \<lparr>message = ''unexpected keys on object: ''
                             @ json_string_array (illegalKeys shape props),
                 path = None\<rparr>)
   \<and> (truthy (allowUnknown (spread this_opts optOverrides))
      \<longrightarrow> parse (ObjectType shape this_opts) optOverrides (VObj props)
          = parse_keys shape (spread this_opts optOverrides) props props
        \<and> (\<forall>e. parse (ObjectType shape this_opts) optOverrides (VObj props) = Inl e
             \<longrightarrow> (\<exists>k p. path e = Some (Key k # p) \<and> k \<in> set (map fst shape))))"
proof (intro conjI impI allI)
  assume "\<not> truthy (allowUnknown (spread this_opts optOverrides)) \<and> illegalKeys shape props \<noteq> []"
  then show "parse (ObjectType shape this_opts) optOverrides (VObj props)
          = Inl \<lparr>message = ''unexpected keys on object: ''
                             @ json_string_array (illegalKeys shape props),
                 path = None\<rparr>"
    by (simp add: unexpected_keys_error_def newError_def)
next
  assume a: "truthy (allowUnknown (spread this_opts optOverrides))"
  then show eq: "parse (ObjectType shape this_opts) optOverrides (VObj props)
          = parse_keys shape (spread this_opts optOverrides) props props"
    by simp
  fix e
  assume "parse (ObjectType shape this_opts) optOverrides (VObj props) = Inl e"
  with eq have "parse_keys shape (spread this_opts optOverrides) props props = Inl e"
    by simp
  then show "\<exists>k p. path e = Some (Key k # p) \<and> k \<in> set (map fst shape)"
    by (rule parse_keys_error_path)
qed

theorem unknown_keys_rejected_witness:
  "parse (ObjectType [(''a'', StringType)] no_opts) no_opts
        (VObj [(''a'', VStr ''x''), (''b'', VNum 1)])
     = Inl \<lparr>message = ''unexpected keys on object: ['' @ [CHR 0x22] @ ''b'' @ [CHR 0x22] @ '']'',
            path = None\<rparr>
   \<and> parse (ObjectType [(''a'', StringType)] no_opts) no_opts
        (VObj [(''a'', VNum 0), (''b'', VNum 1), (''c'', VNum 2)])
     = Inl \<lparr>message = ''unexpected keys on object: ['' @ [CHR 0x22] @ ''b'' @ [CHR 0x22] @ '',''
                        @ [CHR 0x22] @ ''c'' @ [CHR 0x22] @ '']'',
            path = None\<rparr>
   \<and> parse (ObjectType [(''a'', StringType)] no_opts)
        \<lparr>allowUnknown = Set True, suppressPathErrMsg = Unset\<rparr>
        (VObj [(''a'', VStr ''x''), (''b'', VNum 1)])
     = Inr (VObj [(''a'', VStr ''x''), (''b'', VNum 1)])"
proof -
  let ?shape = "[(''a'', StringType)]"
  let ?yes = "\<lparr>allowUnknown = Set True, suppressPathErrMsg = Unset\<rparr>"
  let ?p1 = "[(''a'', VStr ''x''), (''b'', VNum 1)]"
  let ?p2 = "[(''a'', VNum 0), (''b'', VNum 1), (''c'', VNum 2)]"
  have off: "\<not> truthy (allowUnknown (spread no_opts no_opts))" by code_simp
  have on: "truthy (allowUnknown (spread no_opts ?yes))" by code_simp
  have i1: "illegalKeys ?shape ?p1 = [''b'']" by code_simp
  have i2: "illegalKeys ?shape ?p2 = [''b'', ''c'']" by code_simp
  have j1: "json_string_array [''b''] = ''['' @ [CHR 0x22] @ ''b'' @ [CHR 0x22] @ '']''"
    by code_simp
  have j2: "json_string_array [''b'', ''c'']
      = ''['' @ [CHR 0x22] @ ''b'' @ [CHR 0x22] @ '','' @ [CHR 0x22] @ ''c'' @ [CHR 0x22] @ '']''"
    by code_simp
  have loop: "parse_keys ?shape (spread no_opts ?yes) ?p1 ?p1 = Inr (VObj ?p1)" by code_simp
  have r1: "parse (ObjectType ?shape no_opts) no_opts (VObj ?p1)
      = Inl \<lparr>message = ''unexpected keys on object: '' @ json_string_array [''b''], path = None\<rparr>"
    using unknown_keys_rejected [where this_opts = no_opts and optOverrides = no_opts
        and shape = ?shape and props = ?p1] off i1
    by simp
  have r2: "parse (ObjectType ?shape no_opts) no_opts (VObj ?p2)
      = Inl \<lparr>message = ''unexpected keys on object: '' @ json_string_array [''b'', ''c''],
             path = None\<rparr>"
    using unknown_keys_rejected [where this_opts = no_opts and optOverrides = no_opts
        and shape = ?shape and props = ?p2] off i2
    by simp
  have r3: "parse (ObjectType ?shape no_opts) ?yes (VObj ?p1) = Inr (VObj ?p1)"
    using unknown_keys_rejected [where this_opts = no_opts and optOverrides = ?yes
        and shape = ?shape and props = ?p1] on loop
    by simp
  from r1 r2 r3 show ?thesis unfolding j1 j2 by simp
qed

text \<open>
  C10. An object validated with \<open>allowUnknown\<close> in effect validates a declared child that
  is an object node with \<open>allowUnknown\<close> as well, so that the child skips its check of
  undeclared keys. A declared child that is an array node is validated with options that
  do not depend on the parent's, and an object element of it that does not set
  \<open>allowUnknown\<close> itself rejects undeclared keys.
\<close>

theorem allowUnknown_reaches_objects_not_arrays:
  "(truthy (allowUnknown opts)
      \<longrightarrow> parse_key k (ObjectType cshape copts) opts props
          = parse (ObjectType cshape copts)
              \<lparr>allowUnknown = Set True, suppressPathErrMsg = Set True\<rparr> (getProp props k))
   \<and> (truthy (allowUnknown opts) \<and> getProp props k = VObj cprops
      \<longrightarrow> parse_key k (ObjectType cshape copts) opts props
          = parse_keys cshape \<lparr>allowUnknown = Set True, suppressPathErrMsg = Set True\<rparr>
              cprops cprops)
   \<and> parse_key k (ArrayType s) opts props
       = parse (ArrayType s) \<lparr>allowUnknown = Unset, suppressPathErrMsg = Set True\<rparr>
           (getProp props k)
   \<and> (\<not> truthy (allowUnknown copts) \<and> getProp props k = VArr (VObj cprops # rest)
        \<and> illegalKeys cshape cprops \<noteq> []
      \<longrightarrow> parse_key k (ArrayType (ObjectType cshape copts)) opts props
          = Inl \<lparr>message = ''unexpected keys on object: ''
                             @ json_string_array (illegalKeys cshape cprops),
                 path = Some [Idx 0]\<rparr>)"
proof (intro conjI impI)
  assume t: "truthy (allowUnknown opts)"
  then have o: "opts\<lparr>suppressPathErrMsg := Set True\<rparr>
      = \<lparr>allowUnknown = Set True, suppressPathErrMsg = Set True\<rparr>"
    by (simp add: truthy_def)
  then show "parse_key k (ObjectType cshape copts) opts props
          = parse (ObjectType cshape copts)
              \<lparr>allowUnknown = Set True, suppressPathErrMsg = Set True\<rparr> (getProp props k)"
    by (simp add: parse_key.simps)
next
  assume "truthy (allowUnknown opts) \<and> getProp props k = VObj cprops"
  then have o: "opts\<lparr>suppressPathErrMsg := Set True\<rparr>
      = \<lparr>allowUnknown = Set True, suppressPathErrMsg = Set True\<rparr>"
    and g: "getProp props k = VObj cprops"
    by (simp_all add: truthy_def)
  then show "parse_key k (ObjectType cshape copts) opts props
          = parse_keys cshape \<lparr>allowUnknown = Set True, suppressPathErrMsg = Set True\<rparr>
              cprops cprops"
    by (simp add: parse_key.simps spread_def truthy_def)
next
  show "parse_key k (ArrayType s) opts props
       = parse (ArrayType s) \<lparr>allowUnknown = Unset, suppressPathErrMsg = Set True\<rparr>
           (getProp props k)"
    by (simp add: parse_key.simps)
next
  assume "\<not> truthy (allowUnknown copts) \<and> getProp props k = VArr (VObj cprops # rest)
        \<and> illegalKeys cshape cprops \<noteq> []"
  then show "parse_key k (ArrayType (ObjectType cshape copts)) opts props
          = Inl \<lparr>message = ''unexpected keys on object: ''
                             @ json_string_array (illegalKeys cshape cprops),
                 path = Some [Idx 0]\<rparr>"
    by (simp add: parse_key.simps spread_def truthy_def array_catch_def
        unexpected_keys_error_def newError_def)
qed


theorem allowUnknown_reaches_objects_not_arrays_witness:
  "parse (ObjectType [(''inner'', ObjectType [(''x'', NumberType)] no_opts)]
            \<lparr>allowUnknown = Set True, suppressPathErrMsg = Unset\<rparr>) no_opts
        (VObj [(''inner'', VObj [(''x'', VNum 1), (''extra'', VNum 2)])])
     = Inr (VObj [(''inner'', VObj [(''x'', VNum 1), (''extra'', VNum 2)])])
   \<and> parse_key ''inner'' (ObjectType [(''x'', NumberType)] no_opts)
        \<lparr>allowUnknown = Set True, suppressPathErrMsg = Unset\<rparr>
        [(''inner'', VObj [(''x'', VNum 1), (''extra'', VNum 2)])]
     = Inr (VObj [(''x'', VNum 1), (''extra'', VNum 2)])
   \<and> parse_key ''list'' (ArrayType (ObjectType [(''x'', NumberType)] no_opts))
        \<lparr>allowUnknown = Set True, suppressPathErrMsg = Unset\<rparr>
        [(''list'', VArr [VObj [(''x'', VNum 1), (''extra'', VNum 2)]])]
     = Inl \<lparr>message = ''unexpected keys on object: ['' @ [CHR 0x22] @ ''extra'' @ [CHR 0x22] @ '']'',
            path = Some [Idx 0]\<rparr>
   \<and> parse (ObjectType [(''list'', ArrayType (ObjectType [(''x'', NumberType)] no_opts))]
            \<lparr>allowUnknown = Set True, suppressPathErrMsg = Unset\<rparr>) no_opts
        (VObj [(''list'', VArr [VObj [(''x'', VNum 1), (''extra'', VNum 2)]])])
     = Inl \<lparr>message = ''error parsing object at path: '' @ [CHR 0x22] @ ''list[0]'' @ [CHR 0x22]
               @ '' - unexpected keys on object: ['' @ [CHR 0x22] @ ''extra'' @ [CHR 0x22] @ '']'',
            path = Some [Key ''list'', Idx 0]\<rparr>"
proof -
  let ?child = "ObjectType [(''x'', NumberType)] no_opts"
  let ?on = "\<lparr>allowUnknown = Set True, suppressPathErrMsg = Unset\<rparr>"
  let ?cprops = "[(''x'', VNum 1), (''extra'', VNum 2)]"
  have t: "truthy (allowUnknown ?on)" by code_simp
  have g1: "getProp [(''inner'', VObj ?cprops)] ''inner'' = VObj ?cprops" by code_simp
  have loop: "parse_keys [(''x'', NumberType)]
      \<lparr>allowUnknown = Set True, suppressPathErrMsg = Set True\<rparr> ?cprops ?cprops
      = Inr (VObj ?cprops)" by code_simp
  have inner: "parse_key ''inner'' ?child ?on [(''inner'', VObj ?cprops)] = Inr (VObj ?cprops)"
    using allowUnknown_reaches_objects_not_arrays [where opts = ?on and k = "''inner''"
        and props = "[(''inner'', VObj ?cprops)]" and cprops = ?cprops
        and cshape = "[(''x'', NumberType)]" and copts = no_opts,
        THEN conjunct2, THEN conjunct1] t g1 loop
    by metis
  have nt: "\<not> truthy (allowUnknown no_opts)" by code_simp
  have g2: "getProp [(''list'', VArr [VObj ?cprops])] ''list'' = VArr (VObj ?cprops # [])"
    by code_simp
  have ill: "illegalKeys [(''x'', NumberType)] ?cprops = [''extra'']" by code_simp
  have j: "json_string_array [''extra''] = ''['' @ [CHR 0x22] @ ''extra'' @ [CHR 0x22] @ '']''"
    by code_simp
  have list: "parse_key ''list'' (ArrayType ?child) ?on [(''list'', VArr [VObj ?cprops])]
      = Inl \<lparr>message = ''unexpected keys on object: '' @ json_string_array [''extra''],
             path = Some [Idx 0]\<rparr>"
    using allowUnknown_reaches_objects_not_arrays [where opts = ?on and k = "''list''"
        and props = "[(''list'', VArr [VObj ?cprops])]" and cprops = ?cprops and rest = "[]"
        and cshape = "[(''x'', NumberType)]" and copts = no_opts,
        THEN conjunct2, THEN conjunct2, THEN conjunct2] nt g2 ill
    by (metis list.distinct(1))
  have e1: "parse (ObjectType [(''inner'', ?child)] ?on) no_opts (VObj [(''inner'', VObj ?cprops)])
     = Inr (VObj [(''inner'', VObj ?cprops)])" by code_simp
  have e2: "parse (ObjectType [(''list'', ArrayType ?child)] ?on) no_opts
        (VObj [(''list'', VArr [VObj ?cprops])])
     = Inl \<lparr>message = ''error parsing object at path: '' @ [CHR 0x22] @ ''list[0]'' @ [CHR 0x22]
               @ '' - unexpected keys on object: ['' @ [CHR 0x22] @ ''extra'' @ [CHR 0x22] @ '']'',
            path = Some [Key ''list'', Idx 0]\<rparr>" by code_simp
  from inner list e1 e2 show ?thesis
    unfolding j by (simp del: parse.simps parse_key.simps)
qed

section \<open>A declared key of unknown type\<close>

lemma hasOwnProperty_inherited:
  "\<not> ownKey props ''hasOwnProperty'' \<Longrightarrow> hasOwnProperty props key = Inr (ownKey props key)"
  by (simp add: hasOwnProperty_def getProp_def ownKey_def map_of_eq_None_iff [THEN iffD2]
      object_prototype_def builtin_call_def)

lemma missing_unknown_key:
  assumes "isUnknownType s" and "\<not> ownKey props ''hasOwnProperty''" and "\<not> ownKey props k"
  shows "parse_key k s opts props = Inl (missing_key_error k)"
  using assms by (simp add: parse_key.simps hasOwnProperty_inherited)

text \<open>
  C8. The object node asks the input itself whether it owns the key
  (\<open>value.hasOwnProperty(key)\<close>). For a declared key \<open>u\<close> of unknown type and the input
  \<open>{hasOwnProperty: 1}\<close>, which does not own \<open>u\<close>, the call throws a \<open>TypeError\<close>; the
  \<open>catch\<close> block wraps its message, and the error raised is not the error of a missing
  key. An input that does not own a property \<open>hasOwnProperty\<close> gets the error of a missing
  key (\<open>missing_unknown_key\<close>).
\<close>

theorem unknown_key_shadowed_hasOwnProperty:
  "\<not> ownKey [(''hasOwnProperty'', VNum 1)] ''u''
   \<and> parse (ObjectType [(''u'', UnknownType)]
              \<lparr>allowUnknown = Set True, suppressPathErrMsg = Unset\<rparr>) no_opts
        (VObj [(''hasOwnProperty'', VNum 1)])
     = Inl \<lparr>message = ''error parsing object at path: '' @ [CHR 0x22] @ ''u'' @ [CHR 0x22]
               @ '' - value.hasOwnProperty is not a function'',
            path = Some [Key ''u'']\<rparr>
   \<and> message (missing_key_error ''u'')
     = ''expected key '' @ [CHR 0x22] @ ''u'' @ [CHR 0x22]
        @ '' of unknown type to be present on object''"
  by code_simp

section \<open>The message of a failing array element\<close>

lemma parse_elems_first_failure:
  "\<forall>y \<in> set pre. \<exists>r. array_elem s y = Inr r \<Longrightarrow>
   array_elem s x = Inl err \<Longrightarrow>
   parse_elems s opts idx (pre @ x # post) = Inl (array_catch (idx + length pre) opts err)"
proof (induction pre arbitrary: idx)
  case Nil
  then show ?case by (simp add: array_elem_def)
next
  case (Cons y pre)
  then obtain r where "array_elem s y = Inr r" by auto
  then have "parse_elems s opts idx ((y # pre) @ x # post)
      = parse_elems s opts (Suc idx) (pre @ x # post)"
    by (simp add: array_elem_def)
  moreover from Cons.prems have "\<forall>y \<in> set pre. \<exists>r. array_elem s y = Inr r" by simp
  ultimately show ?case using Cons.IH [OF _ Cons.prems(2), of "Suc idx"] by simp
qed

lemma path_msgs_differ: "array_path_msg p m \<noteq> object_path_msg q m'"
  by (simp add: array_path_msg_def object_path_msg_def)

text \<open>
  C2, as amended. When the validation of an element fails, the elements before it
  validate and suppression is not requested, the array node puts the index of the
  element in front of the child's path and raises the message
  \<open>error at <rendered path> - <child message>\<close>. This format is the array node's own: it
  differs from the object node's \<open>error parsing object at path: "<rendered path>" -
  <child message>\<close> for every path and message.
\<close>

theorem array_failure_format:
  "((\<forall>y \<in> set pre. \<exists>r. array_elem s y = Inr r) \<and> array_elem s x = Inl err
      \<and> \<not> truthy (suppressPathErrMsg opts)
     \<longrightarrow> parse (ArrayType s) opts (VArr (pre @ x # post))
         = Inl \<lparr>message = ''error at ''
                   @ prettyPrintPath (Idx (length pre) # (case path err of None \<Rightarrow> [] | Some p \<Rightarrow> p))
                   @ '' - '' @ message err,
                path = Some (Idx (length pre) # (case path err of None \<Rightarrow> [] | Some p \<Rightarrow> p))\<rparr>)
   \<and> array_path_msg p m \<noteq> object_path_msg p m"
proof (intro conjI impI)
  assume h: "(\<forall>y \<in> set pre. \<exists>r. array_elem s y = Inr r) \<and> array_elem s x = Inl err
      \<and> \<not> truthy (suppressPathErrMsg opts)"
  then have "parse_elems s opts 0 (pre @ x # post) = Inl (array_catch (0 + length pre) opts err)"
    by (intro parse_elems_first_failure) auto
  with h show "parse (ArrayType s) opts (VArr (pre @ x # post))
         = Inl \<lparr>message = ''error at ''
                   @ prettyPrintPath (Idx (length pre) # (case path err of None \<Rightarrow> [] | Some p \<Rightarrow> p))
                   @ '' - '' @ message err,
                path = Some (Idx (length pre) # (case path err of None \<Rightarrow> [] | Some p \<Rightarrow> p))\<rparr>"
    by (simp add: array_catch_def array_path_msg_def Let_def split: option.splits)
next
  show "array_path_msg p m \<noteq> object_path_msg p m" by (rule path_msgs_differ)
qed

theorem array_failure_format_witness:
  "parse (ArrayType (ObjectType [(''a'', StringType)] no_opts)) no_opts
      (VArr [VObj [(''a'', VStr ''x'')], VObj [(''a'', VNum 1)]])
    = Inl \<lparr>message = ''error at [1].a - expected type to be string but got number'',
           path = Some [Idx 1, Key ''a'']\<rparr>"
proof -
  let ?s = "ObjectType [(''a'', StringType)] no_opts"
  let ?err = "\<lparr>message = ''expected type to be string but got number'', path = Some [Key ''a'']\<rparr>"
  have "array_elem ?s (VObj [(''a'', VStr ''x'')]) = Inr (VObj [(''a'', VStr ''x'')])"
    by code_simp
  then have pre: "\<forall>y \<in> set [VObj [(''a'', VStr ''x'')]]. \<exists>r. array_elem ?s y = Inr r"
    by simp
  have x: "array_elem ?s (VObj [(''a'', VNum 1)]) = Inl ?err"
    by code_simp
  have ns: "\<not> truthy (suppressPathErrMsg no_opts)" by code_simp
  have "parse (ArrayType ?s) no_opts (VArr ([VObj [(''a'', VStr ''x'')]] @ VObj [(''a'', VNum 1)] # []))
      = Inl \<lparr>message = ''error at ''
                @ prettyPrintPath (Idx (length [VObj [(''a'', VStr ''x'')]])
                    # (case path ?err of None \<Rightarrow> [] | Some p \<Rightarrow> p))
                @ '' - '' @ message ?err,
             path = Some (Idx (length [VObj [(''a'', VStr ''x'')]])
                    # (case path ?err of None \<Rightarrow> [] | Some p \<Rightarrow> p))\<rparr>"
    using array_failure_format [where pre = "[VObj [(''a'', VStr ''x'')]]" and s = ?s
        and x = "VObj [(''a'', VNum 1)]" and err = ?err and opts = no_opts and post = "[]",
        THEN conjunct1] pre x ns
    by blast
  moreover have "prettyPrintPath [Idx 1, Key ''a''] = ''[1].a''" by code_simp
  ultimately show ?thesis by (simp del: parse.simps)
qed

text \<open>
  C2, as stated, fails: for the array \<open>[1]\<close> and the element schema \<open>string()\<close> the array
  node raises \<open>error at [0] - ...\<close>, which is not the object node's format applied to the
  same path and child message.
\<close>

theorem array_wrap_format_counterexample:
  "parse (ArrayType StringType) no_opts (VArr [VNum 1])
     = Inl \<lparr>message = ''error at [0] - expected type to be string but got number'',
            path = Some [Idx 0]\<rparr>
   \<and> object_path_msg [Idx 0] ''expected type to be string but got number''
     = ''error parsing object at path: '' @ [CHR 0x22] @ ''[0]'' @ [CHR 0x22]
        @ '' - expected type to be string but got number''
   \<and> ''error at [0] - expected type to be string but got number''
     \<noteq> object_path_msg [Idx 0] ''expected type to be string but got number''"
proof -
  have a: "parse (ArrayType StringType) no_opts (VArr [VNum 1])
     = Inl \<lparr>message = ''error at [0] - expected type to be string but got number'',
            path = Some [Idx 0]\<rparr>"
    by code_simp
  have b: "object_path_msg [Idx 0] ''expected type to be string but got number''
     = ''error parsing object at path: '' @ [CHR 0x22] @ ''[0]'' @ [CHR 0x22]
        @ '' - expected type to be string but got number''"
    by code_simp
  have c: "''error at [0] - expected type to be string but got number''
     \<noteq> object_path_msg [Idx 0] ''expected type to be string but got number''"
    unfolding b by simp
  from a b c show ?thesis by blast
qed

section \<open>Path prefixes in messages\<close>

lemma error_of_own [simp]: "error_of (Own m, None) = newError m"
  by (simp add: error_of_def newError_def)

lemma error_of_object_catch [simp]:
  "error_of (object_catch_traced key opts err) = object_catch key opts (error_of err)"
  by (simp add: error_of_def object_catch_traced_def object_catch_def Let_def)

lemma error_of_array_catch [simp]:
  "error_of (array_catch_traced idx opts err) = array_catch idx opts (error_of err)"
  by (simp add: error_of_def array_catch_traced_def array_catch_def Let_def)

lemma newError_message [simp]: "newError (message (newError m)) = newError m"
  by (simp add: newError_def)

lemma parse_traced_agrees:
  "parse n opts v = map_sum error_of id (parse_traced n opts v)"
  "parse_keys shape opts2 props acc = map_sum error_of id (parse_keys_traced shape opts2 props acc)"
  "parse_key k s opts3 props3 = map_sum error_of id (parse_key_traced k s opts3 props3)"
  "parse_elems s4 opts4 idx xs = map_sum error_of id (parse_elems_traced s4 opts4 idx xs)"
  "parse_union ss uo v5 (map render ts) = map_sum error_of id (parse_union_traced ss uo v5 ts)"
proof (induction n opts v and shape opts2 props acc and k s opts3 props3 and s4 opts4 idx xs
    and ss uo v5 ts
    rule: parse_traced_parse_keys_traced_parse_key_traced_parse_elems_traced_parse_union_traced.induct)
  case (1 objectShape this_opts optOverrides v)
  then show ?case
    by (cases v) (auto simp: Let_def unexpected_keys_error_def newError_def)
next
  case (2 s opts v)
  then show ?case by (cases v) (auto split: sum.splits)
next
  case (3 schemas this_opts optOverrides v)
  then show ?case by simp
next
  case (4 left right optOverrides v)
  then show ?case
    by (cases "isObjectType left"; cases "isObjectType right") (simp_all split: sum.splits)
next
  case (12 opts props acc)
  then show ?case by simp
next
  case (13 key keySchema rest opts props acc)
  then show ?case by (auto split: sum.splits)
next
  case (14 key keySchema opts props)
  then show ?case
    by (auto simp: parse_key.simps parse_key_traced.simps missing_key_error_def newError_def
        split: sum.splits)
next
  case (15 s opts idx)
  then show ?case by simp
next
  case (16 s opts idx elem rest)
  then show ?case by (auto split: sum.splits if_splits)
next
  case (17 this_opts v errors)
  then show ?case by (simp add: union_error_def error_of_def newError_def)
next
  case (18 s rest this_opts v errors)
  then show ?case by (auto simp: error_of_def split: sum.splits if_splits)
qed (auto simp: newError_def error_of_def split: jsval.splits if_splits)

lemma parse_keys_traced_error:
  "parse_keys_traced shape opts props acc = Inl e \<Longrightarrow>
   \<exists>k s err. (k, s) \<in> set shape \<and> parse_key_traced k s opts props = Inl err
     \<and> e = object_catch_traced k opts err"
proof (induction shape arbitrary: acc)
  case Nil
  then show ?case by simp
next
  case (Cons ks rest)
  obtain k s where ks: "ks = (k, s)" by (cases ks)
  show ?case
  proof (cases "parse_key_traced k s opts props")
    case (Inl err)
    with Cons.prems ks have "e = object_catch_traced k opts err" by simp
    with Inl ks show ?thesis
      by (intro exI [of _ k] exI [of _ s] exI [of _ err]) simp
  next
    case (Inr r)
    with Cons.prems ks have "parse_keys_traced rest opts props (setProp acc k r) = Inl e"
      by simp
    from Cons.IH [OF this] show ?thesis by auto
  qed
qed

lemma parse_elems_traced_error:
  "parse_elems_traced s opts idx xs = Inl e \<Longrightarrow>
   \<exists>i o' x err. parse_traced s o' x = Inl err \<and> e = array_catch_traced i opts err
      \<and> (isObjectType s \<or> isArrayType s \<longrightarrow> truthy (suppressPathErrMsg o'))"
proof (induction xs arbitrary: idx)
  case Nil
  then show ?case by simp
next
  case (Cons x xs)
  let ?r = "if isObjectType s \<or> isArrayType s
            then parse_traced s \<lparr>allowUnknown = Unset, suppressPathErrMsg = Set True\<rparr> x
            else parse_traced s no_opts x"
  show ?case
  proof (cases ?r)
    case (Inl err)
    with Cons.prems have e: "e = array_catch_traced idx opts err" by simp
    show ?thesis
    proof (cases "isObjectType s \<or> isArrayType s")
      case True
      with Inl have "parse_traced s \<lparr>allowUnknown = Unset, suppressPathErrMsg = Set True\<rparr> x = Inl err"
        by simp
      with e show ?thesis
        by (intro exI [of _ idx]
            exI [of _ "\<lparr>allowUnknown = Unset, suppressPathErrMsg = Set True\<rparr>"]
            exI [of _ x] exI [of _ err]) (simp add: truthy_def)
    next
      case False
      with Inl have "parse_traced s no_opts x = Inl err" by simp
      with e False show ?thesis
        by (intro exI [of _ idx] exI [of _ no_opts] exI [of _ x] exI [of _ err]) simp
    qed
  next
    case (Inr r)
    with Cons.prems have "parse_elems_traced s opts (Suc idx) xs = Inl e" by simp
    from Cons.IH [OF this] show ?thesis .
  qed
qed

lemma parse_union_traced_error:
  "parse_union_traced ss uo v ts = Inl e \<Longrightarrow>
   \<exists>ts'. e = (NoUnion (ts @ ts'), None)
     \<and> (\<forall>t \<in> set ts'. \<exists>s \<in> set ss. \<exists>o' p. parse_traced s o' v = Inl (t, p))"
proof (induction ss arbitrary: ts)
  case Nil
  then show ?case by simp
next
  case (Cons s ss)
  let ?r = "if strict uo = Set False \<and> isObjectType s
            then parse_traced s \<lparr>allowUnknown = Set True, suppressPathErrMsg = Unset\<rparr> v
            else parse_traced s no_opts v"
  show ?case
  proof (cases ?r)
    case (Inl err)
    with Cons.prems have "parse_union_traced ss uo v (ts @ [fst err]) = Inl e" by simp
    from Cons.IH [OF this] obtain ts' where
      e: "e = (NoUnion ((ts @ [fst err]) @ ts'), None)" and
      rest: "\<forall>t \<in> set ts'. \<exists>s \<in> set ss. \<exists>o' p. parse_traced s o' v = Inl (t, p)"
      by blast
    from Inl have "\<exists>o' p. parse_traced s o' v = Inl (fst err, p)"
      by (cases err) (auto split: if_splits)
    with rest have "\<forall>t \<in> set (fst err # ts'). \<exists>s' \<in> set (s # ss). \<exists>o' p. parse_traced s' o' v = Inl (t, p)"
      by auto
    with e show ?thesis by (intro exI [of _ "fst err # ts'"]) simp
  next
    case (Inr r)
    with Cons.prems show ?thesis by simp
  qed
qed

lemma quiet_no_prefix:
  "quiet n \<Longrightarrow> parse_traced n opts v = Inl (t, p) \<Longrightarrow> prefixes t = 0 \<and> p = None"
proof (induction n arbitrary: opts v t p)
  case (UnionType ss uo)
  from UnionType.prems(2) have "parse_union_traced ss uo v [] = Inl (t, p)" by simp
  from parse_union_traced_error [OF this] obtain ts' where
    t: "t = NoUnion ts'" "p = None" and
    each: "\<forall>t \<in> set ts'. \<exists>s \<in> set ss. \<exists>o' p. parse_traced s o' v = Inl (t, p)"
    by auto
  have "\<forall>t \<in> set ts'. prefixes t = 0"
    using each UnionType.IH UnionType.prems(1) by (metis quiet.simps(3))
  then have "sum_list (map prefixes ts') = 0" by simp
  with t show ?case by simp
next
  case (IntersectionType l r)
  then show ?case by (auto split: sum.splits if_splits)
qed (auto split: sum.splits)

lemma object_traced_failure:
  assumes "parse_traced (ObjectType shape so) ov v = Inl e"
  shows "(prefixes (fst e) = 0 \<and> snd e = None)
     \<or> (\<exists>props k s err. (k, s) \<in> set shape
           \<and> parse_key_traced k s (spread so ov) props = Inl err
           \<and> e = object_catch_traced k (spread so ov) err)"
proof (cases v)
  case (VObj props)
  show ?thesis
  proof (cases "\<not> truthy (allowUnknown (spread so ov)) \<and> illegalKeys shape props \<noteq> []")
    case True
    with assms VObj show ?thesis by auto
  next
    case False
    with assms VObj have "parse_keys_traced shape (spread so ov) props props = Inl e"
      by (auto simp: Let_def)
    from parse_keys_traced_error [OF this] show ?thesis by blast
  qed
qed (use assms in \<open>auto split: sum.splits\<close>)

lemma array_traced_failure:
  assumes "parse_traced (ArrayType s) opts v = Inl e"
  shows "(prefixes (fst e) = 0 \<and> snd e = None)
     \<or> (\<exists>i o' x err. parse_traced s o' x = Inl err \<and> e = array_catch_traced i opts err
           \<and> (isObjectType s \<or> isArrayType s \<longrightarrow> truthy (suppressPathErrMsg o')))"
proof (cases v)
  case (VArr xs)
  with assms have "parse_elems_traced s opts 0 xs = Inl e" by (auto split: sum.splits)
  from parse_elems_traced_error [OF this] show ?thesis by blast
qed (use assms in auto)

lemma root_suppressed_override:
  "isObjectType s \<or> isArrayType s \<Longrightarrow> truthy (suppressPathErrMsg o') \<Longrightarrow>
   root_suppressed s (opts\<lparr>suppressPathErrMsg := Set True\<rparr>) \<and>
   (allowUnknown o' = Unset \<longrightarrow> root_suppressed s o')"
  by (cases s) (auto simp: spread_def truthy_def)

lemma key_no_prefix:
  assumes ok: "if isObjectType s \<or> isArrayType s then one_prefix s else quiet s"
    and IH: "\<And>opts v t p. one_prefix s \<Longrightarrow> isObjectType s \<or> isArrayType s \<Longrightarrow>
               root_suppressed s opts \<Longrightarrow> parse_traced s opts v = Inl (t, p) \<Longrightarrow> prefixes t = 0"
    and fail: "parse_key_traced k s opts props = Inl err"
  shows "prefixes (fst err) = 0"
proof -
  obtain t p where err: "err = (t, p)" by (cases err)
  consider (check) "isUnknownType s"
    | (obj) "\<not> isUnknownType s" "isObjectType s"
    | (arr) "\<not> isUnknownType s" "\<not> isObjectType s" "isArrayType s"
    | (other) "\<not> isUnknownType s" "\<not> isObjectType s" "\<not> isArrayType s"
    by blast
  then show ?thesis
  proof cases
    case check
    then have s: "s = UnknownType" by (cases s) auto
    with fail err show ?thesis
      by (auto simp: parse_key_traced.simps split: sum.splits if_splits)
  next
    case obj
    with fail err have "parse_traced s (opts\<lparr>suppressPathErrMsg := Set True\<rparr>) (getProp props k) = Inl (t, p)"
      by (simp add: parse_key_traced.simps)
    moreover from obj have "root_suppressed s (opts\<lparr>suppressPathErrMsg := Set True\<rparr>)"
      by (cases s) (auto simp: spread_def truthy_def)
    ultimately show ?thesis using IH ok obj err by auto
  next
    case arr
    with fail err have "parse_traced s \<lparr>allowUnknown = Unset, suppressPathErrMsg = Set True\<rparr>
        (getProp props k) = Inl (t, p)"
      by (simp add: parse_key_traced.simps)
    moreover from arr have "root_suppressed s \<lparr>allowUnknown = Unset, suppressPathErrMsg = Set True\<rparr>"
      by (cases s) (auto simp: truthy_def)
    ultimately show ?thesis using IH ok arr err by auto
  next
    case other
    with fail err have "parse_traced s no_opts (getProp props k) = Inl (t, p)"
      by (simp add: parse_key_traced.simps)
    moreover from other ok have "quiet s" by simp
    ultimately show ?thesis using quiet_no_prefix err by auto
  qed
qed

lemma elem_no_prefix:
  assumes ok: "if isObjectType s \<or> isArrayType s then one_prefix s else quiet s"
    and IH: "\<And>opts v t p. one_prefix s \<Longrightarrow> isObjectType s \<or> isArrayType s \<Longrightarrow>
               root_suppressed s opts \<Longrightarrow> parse_traced s opts v = Inl (t, p) \<Longrightarrow> prefixes t = 0"
    and fail: "parse_traced s o' x = Inl err"
    and sup: "isObjectType s \<or> isArrayType s \<longrightarrow> truthy (suppressPathErrMsg o')"
  shows "prefixes (fst err) = 0"
proof -
  obtain t p where err: "err = (t, p)" by (cases err)
  show ?thesis
  proof (cases "isObjectType s \<or> isArrayType s")
    case True
    with sup have "root_suppressed s o'" by (cases s) (auto simp: spread_def truthy_def)
    with IH ok True fail err show ?thesis by auto
  next
    case False
    with ok have "quiet s" by simp
    with quiet_no_prefix fail err show ?thesis by auto
  qed
qed

lemma suppressed_no_prefix:
  "one_prefix n \<Longrightarrow> isObjectType n \<or> isArrayType n \<Longrightarrow> root_suppressed n opts \<Longrightarrow>
   parse_traced n opts v = Inl (t, p) \<Longrightarrow> prefixes t = 0"
proof (induction n arbitrary: opts v t p)
  case (ObjectType shape so)
  from object_traced_failure [OF ObjectType.prems(4)]
  consider "prefixes t = 0"
    | props k s err where "(k, s) \<in> set shape"
        "parse_key_traced k s (spread so opts) props = Inl err"
        "(t, p) = object_catch_traced k (spread so opts) err"
    by auto
  then show ?case
  proof cases
    case 1
    then show ?thesis .
  next
    case 2
    from 2(1) ObjectType.prems(1)
    have ok: "if isObjectType s \<or> isArrayType s then one_prefix s else quiet s" by auto
    have "prefixes (fst err) = 0"
      by (rule key_no_prefix [OF ok _ 2(2)]) (rule ObjectType.IH [OF 2(1)], simp_all)
    moreover from ObjectType.prems(3) 2(3) have "t = fst err"
      by (simp add: object_catch_traced_def Let_def)
    ultimately show ?thesis by simp
  qed
next
  case (ArrayType s)
  from array_traced_failure [OF ArrayType.prems(4)]
  consider "prefixes t = 0"
    | i o' x err where "parse_traced s o' x = Inl err" "(t, p) = array_catch_traced i opts err"
        "isObjectType s \<or> isArrayType s \<longrightarrow> truthy (suppressPathErrMsg o')"
    by auto
  then show ?case
  proof cases
    case 1
    then show ?thesis .
  next
    case 2
    from ArrayType.prems(1)
    have ok: "if isObjectType s \<or> isArrayType s then one_prefix s else quiet s" by simp
    have "prefixes (fst err) = 0"
      by (rule elem_no_prefix [OF ok _ 2(1) 2(3)]) (rule ArrayType.IH)
    moreover from ArrayType.prems(3) 2(2) have "t = fst err"
      by (simp add: array_catch_traced_def Let_def)
    ultimately show ?thesis by simp
  qed
qed simp_all

lemma top_level_prefixes:
  "one_prefix n \<Longrightarrow> \<not> root_suppressed n opts \<Longrightarrow> parse_traced n opts v = Inl (t, p) \<Longrightarrow>
   prefixes t = (if p = None then 0 else 1)"
proof (induction n arbitrary: opts v t p)
  case (ObjectType shape so)
  from object_traced_failure [OF ObjectType.prems(3)]
  consider "prefixes t = 0 \<and> p = None"
    | props k s err where "(k, s) \<in> set shape"
        "parse_key_traced k s (spread so opts) props = Inl err"
        "(t, p) = object_catch_traced k (spread so opts) err"
    by auto
  then show ?case
  proof cases
    case 1
    then show ?thesis by simp
  next
    case 2
    from 2(1) ObjectType.prems(1)
    have ok: "if isObjectType s \<or> isArrayType s then one_prefix s else quiet s" by auto
    have "prefixes (fst err) = 0"
      by (rule key_no_prefix [OF ok _ 2(2)]) (rule suppressed_no_prefix)
    with ObjectType.prems(2) 2(3) show ?thesis
      by (auto simp: object_catch_traced_def Let_def)
  qed
next
  case (ArrayType s)
  from array_traced_failure [OF ArrayType.prems(3)]
  consider "prefixes t = 0 \<and> p = None"
    | i o' x err where "parse_traced s o' x = Inl err" "(t, p) = array_catch_traced i opts err"
        "isObjectType s \<or> isArrayType s \<longrightarrow> truthy (suppressPathErrMsg o')"
    by auto
  then show ?case
  proof cases
    case 1
    then show ?thesis by simp
  next
    case 2
    from ArrayType.prems(1)
    have ok: "if isObjectType s \<or> isArrayType s then one_prefix s else quiet s" by simp
    have "prefixes (fst err) = 0"
      by (rule elem_no_prefix [OF ok _ 2(1) 2(3)]) (rule suppressed_no_prefix)
    with ArrayType.prems(2) 2(2) show ?thesis
      by (auto simp: array_catch_traced_def Let_def)
  qed
next
  case (UnionType ss uo)
  from quiet_no_prefix [of "UnionType ss uo", OF _ UnionType.prems(3)] UnionType.prems(1)
  show ?case by simp
next
  case (IntersectionType l r)
  have sup: "root_suppressed s \<lparr>allowUnknown = Set True, suppressPathErrMsg = Unset\<rparr>
      = root_suppressed s no_opts" for s
    by (cases s) (auto simp: spread_def no_opts_def)
  from IntersectionType.prems(2) have ns: "\<not> root_suppressed l no_opts" "\<not> root_suppressed r no_opts"
    by simp_all
  from IntersectionType.prems(1) have one: "one_prefix l" "one_prefix r" by simp_all
  from IntersectionType.prems(3) consider
      o' where "parse_traced l o' v = Inl (t, p)" "\<not> root_suppressed l o'"
    | o' where "parse_traced r o' v = Inl (t, p)" "\<not> root_suppressed r o'"
    using ns sup by (auto split: sum.splits if_splits)
  then show ?case
  proof cases
    case 1
    from IntersectionType.IH(1) [OF one(1) 1(2) 1(1)] show ?thesis .
  next
    case 2
    from IntersectionType.IH(2) [OF one(2) 2(2) 2(1)] show ?thesis .
  qed
qed (auto split: sum.splits)

text \<open>
  C1, as amended. Take a schema in which no union, and no intersection below an object or
  array node, contains an object or array node, and a call that does not suppress the
  prefix at the root (nor on a branch of an intersection at the root). The message of the
  error is built with exactly one path prefix when the error carries a path, and with
  none when it carries no path (the check of the root itself failed, or a union, or a
  branch of an intersection that is neither object nor array).
\<close>

theorem single_path_prefix:
  assumes "one_prefix n" and "\<not> root_suppressed n opts" and "parse n opts v = Inl e"
  shows "\<exists>t. parse_traced n opts v = Inl (t, path e) \<and> message e = render t
           \<and> prefixes t = (if path e = None then 0 else 1)"
proof -
  from assms(3) parse_traced_agrees(1) [of n opts v]
  obtain t p where run: "parse_traced n opts v = Inl (t, p)" and e: "e = error_of (t, p)"
    by (cases "parse_traced n opts v") auto
  from e have "message e = render t" "path e = p" by (simp_all add: error_of_def)
  with top_level_prefixes [OF assms(1,2) run] run show ?thesis by auto
qed

theorem single_path_prefix_witness:
  "one_prefix (ObjectType [(''a'', ArrayType (ObjectType
       [(''b'', UnionType [StringType, UndefinedType] \<lparr>strict = Unset\<rparr>)] no_opts))] no_opts)
   \<and> \<not> root_suppressed (ObjectType [(''a'', ArrayType (ObjectType
       [(''b'', UnionType [StringType, UndefinedType] \<lparr>strict = Unset\<rparr>)] no_opts))] no_opts) no_opts
   \<and> parse (ObjectType [(''a'', ArrayType (ObjectType
       [(''b'', UnionType [StringType, UndefinedType] \<lparr>strict = Unset\<rparr>)] no_opts))] no_opts) no_opts
       (VObj [(''a'', VArr [VObj [], VObj [(''b'', VNum 1)]])])
     = Inl \<lparr>message = ''error parsing object at path: '' @ [CHR 0x22] @ ''a[1].b'' @ [CHR 0x22]
               @ '' - No union satisfied:'' @ [CHR 0x0A]
               @ ''  expected type to be string but got number'' @ [CHR 0x0A]
               @ ''  expected type to be undefined but got number'',
            path = Some [Key ''a'', Idx 1, Key ''b'']\<rparr>
   \<and> parse_traced (ObjectType [(''a'', ArrayType (ObjectType
       [(''b'', UnionType [StringType, UndefinedType] \<lparr>strict = Unset\<rparr>)] no_opts))] no_opts) no_opts
       (VObj [(''a'', VArr [VObj [], VObj [(''b'', VNum 1)]])])
     = Inl (ObjectPath [Key ''a'', Idx 1, Key ''b'']
              (NoUnion [Own ''expected type to be string but got number'',
                        Own ''expected type to be undefined but got number'']),
            Some [Key ''a'', Idx 1, Key ''b''])
   \<and> prefixes (ObjectPath [Key ''a'', Idx 1, Key ''b'']
              (NoUnion [Own ''expected type to be string but got number'',
                        Own ''expected type to be undefined but got number''])) = 1"
proof -
  let ?n = "ObjectType [(''a'', ArrayType (ObjectType
       [(''b'', UnionType [StringType, UndefinedType] \<lparr>strict = Unset\<rparr>)] no_opts))] no_opts"
  let ?v = "VObj [(''a'', VArr [VObj [], VObj [(''b'', VNum 1)]])]"
  let ?t = "ObjectPath [Key ''a'', Idx 1, Key ''b'']
              (NoUnion [Own ''expected type to be string but got number'',
                        Own ''expected type to be undefined but got number''])"
  let ?e = "\<lparr>message = ''error parsing object at path: '' @ [CHR 0x22] @ ''a[1].b'' @ [CHR 0x22]
               @ '' - No union satisfied:'' @ [CHR 0x0A]
               @ ''  expected type to be string but got number'' @ [CHR 0x0A]
               @ ''  expected type to be undefined but got number'',
            path = Some [Key ''a'', Idx 1, Key ''b'']\<rparr>"
  have safe: "one_prefix ?n" by simp
  have top: "\<not> root_suppressed ?n no_opts" by code_simp
  have run: "parse ?n no_opts ?v = Inl ?e" by code_simp
  have traced: "parse_traced ?n no_opts ?v = Inl (?t, Some [Key ''a'', Idx 1, Key ''b''])"
    by code_simp
  from single_path_prefix [OF safe top run] obtain t where
    "parse_traced ?n no_opts ?v = Inl (t, path ?e)" "prefixes t = (if path ?e = None then 0 else 1)"
    by blast
  with traced have "prefixes ?t = 1" by simp
  with safe top run traced show ?thesis by blast
qed

text \<open>
  C1, as stated, fails. A leaf at the root raises a message without a prefix. An object
  below a union or an intersection is validated without the suppression flag and adds a
  prefix of its own, so that the message of the enclosing object has two.
\<close>

theorem single_path_prefix_counterexample:
  "parse StringType no_opts (VNum 1)
     = Inl \<lparr>message = ''expected type to be string but got number'', path = None\<rparr>
   \<and> parse_traced StringType no_opts (VNum 1)
     = Inl (Own ''expected type to be string but got number'', None)
   \<and> prefixes (Own ''expected type to be string but got number'') = 0
   \<and> parse (ObjectType [(''a'', UnionType [ObjectType [(''b'', StringType)] no_opts]
               \<lparr>strict = Unset\<rparr>)] no_opts) no_opts
        (VObj [(''a'', VObj [(''b'', VNum 1)])])
     = Inl \<lparr>message = ''error parsing object at path: '' @ [CHR 0x22] @ ''a'' @ [CHR 0x22]
               @ '' - No union satisfied:'' @ [CHR 0x0A]
               @ ''  error parsing object at path: '' @ [CHR 0x22] @ ''b'' @ [CHR 0x22]
               @ '' - expected type to be string but got number'',
            path = Some [Key ''a'']\<rparr>
   \<and> parse_traced (ObjectType [(''a'', UnionType [ObjectType [(''b'', StringType)] no_opts]
               \<lparr>strict = Unset\<rparr>)] no_opts) no_opts
        (VObj [(''a'', VObj [(''b'', VNum 1)])])
     = Inl (ObjectPath [Key ''a'']
              (NoUnion [ObjectPath [Key ''b'']
                          (Own ''expected type to be string but got number'')]),
            Some [Key ''a''])
   \<and> prefixes (ObjectPath [Key ''a'']
              (NoUnion [ObjectPath [Key ''b'']
                          (Own ''expected type to be string but got number'')])) = 2
   \<and> parse (ObjectType [(''a'', IntersectionType (ObjectType [(''b'', StringType)] no_opts)
               UnknownType)] no_opts) no_opts
        (VObj [(''a'', VObj [(''b'', VNum 1)])])
     = Inl \<lparr>message = ''error parsing object at path: '' @ [CHR 0x22] @ ''a.b'' @ [CHR 0x22]
               @ '' - error parsing object at path: '' @ [CHR 0x22] @ ''b'' @ [CHR 0x22]
               @ '' - expected type to be string but got number'',
            path = Some [Key ''a'', Key ''b'']\<rparr>
   \<and> parse_traced (ObjectType [(''a'', IntersectionType (ObjectType [(''b'', StringType)] no_opts)
               UnknownType)] no_opts) no_opts
        (VObj [(''a'', VObj [(''b'', VNum 1)])])
     = Inl (ObjectPath [Key ''a'', Key ''b'']
              (ObjectPath [Key ''b''] (Own ''expected type to be string but got number'')),
            Some [Key ''a'', Key ''b''])
   \<and> prefixes (ObjectPath [Key ''a'', Key ''b'']
              (ObjectPath [Key ''b''] (Own ''expected type to be string but got number''))) = 2"
  by code_simp

section \<open>Validating a result again\<close>

lemma parse_union_success:
  "parse_union ss this_opts v errors = Inr r \<Longrightarrow>
   \<exists>s \<in> set ss. union_candidate this_opts s v = Inr r"
proof (induction ss arbitrary: errors)
  case Nil
  then show ?case by simp
next
  case (Cons s ss)
  show ?case
  proof (cases "union_candidate this_opts s v")
    case (Inl err)
    with Cons.prems have "parse_union ss this_opts v (errors @ [message err]) = Inr r"
      by (simp add: union_candidate_def)
    from Cons.IH [OF this] show ?thesis by auto
  next
    case (Inr r')
    with Cons.prems show ?thesis by (simp add: union_candidate_def)
  qed
qed

lemma parse_union_some_success:
  "s \<in> set ss \<Longrightarrow> union_candidate this_opts s v = Inr r \<Longrightarrow>
   \<exists>r'. parse_union ss this_opts v errors = Inr r'"
proof (induction ss arbitrary: errors)
  case Nil
  then show ?case by simp
next
  case (Cons c ss)
  show ?case
  proof (cases "union_candidate this_opts c v")
    case (Inl err)
    with Cons.prems have "s \<in> set ss" by auto
    from Cons.IH [OF this Cons.prems(2)] Inl show ?thesis
      by (simp add: union_candidate_def)
  next
    case (Inr r')
    then show ?thesis by (simp add: union_candidate_def)
  qed
qed

lemma returns_input_unchanged:
  "returns_input n \<Longrightarrow> parse n opts v = Inr r \<Longrightarrow> r = v"
proof (induction n arbitrary: opts v r)
  case (UnionType ss uo)
  from UnionType.prems(2) have "parse_union ss uo v [] = Inr r" by simp
  from parse_union_success [OF this] obtain s where
    s: "s \<in> set ss" "union_candidate uo s v = Inr r" by blast
  with UnionType.prems(1) have "returns_input s" by simp
  with UnionType.IH [OF s(1)] s(2) show ?case
    by (auto simp: union_candidate_def split: if_splits)
qed (auto split: jsval.splits if_splits sum.splits)


lemma getProp_own: "map_of props k = Some v \<Longrightarrow> getProp props k = v"
  by (simp add: getProp_def)

lemma getProp_eq: "map_of acc k = map_of props k \<Longrightarrow> getProp acc k = getProp props k"
  by (simp add: getProp_def)

lemma getProp_absent:
  "\<not> inherited_key k \<Longrightarrow> map_of props k = None \<Longrightarrow> getProp props k = VUndefined"
  by (simp add: getProp_def inherited_key_def)

lemma ownKey_map_of: "ownKey props k \<longleftrightarrow> map_of props k \<noteq> None"
  by (simp add: ownKey_def map_of_eq_None_iff)

lemma builtin_call_basic_mono:
  assumes "builtin_call_basic b props k = Inr True"
    and "fst ` set props \<subseteq> fst ` set acc" and "k \<in> fst ` set acc" and "k \<noteq> ''__proto__''"
  shows "builtin_call_basic b acc k = Inr True"
  using assms by (cases b) (auto simp: ownKey_def)

lemma hasOwnProperty_mono:
  assumes has: "hasOwnProperty props k = Inr True"
    and sub: "fst ` set props \<subseteq> fst ` set acc" and own: "k \<in> fst ` set acc"
    and h: "map_of acc ''hasOwnProperty'' = map_of props ''hasOwnProperty''"
    and t: "map_of acc ''toString'' = map_of props ''toString''"
    and k: "k \<noteq> ''__proto__''"
  shows "hasOwnProperty acc k = Inr True"
proof -
  from has obtain b where b: "getProp props ''hasOwnProperty'' = VFunction b"
    and call: "builtin_call b props k = Inr True"
    by (auto simp: hasOwnProperty_def split: jsval.splits)
  from b getProp_eq [OF h] have b': "getProp acc ''hasOwnProperty'' = VFunction b" by simp
  have "builtin_call b acc k = Inr True"
  proof (cases "b = ToLocaleString")
    case True
    with call obtain g where g: "getProp props ''toString'' = VFunction g"
      and basic: "builtin_call_basic g props ''undefined'' = Inr True"
      by (auto simp: builtin_call_def split: jsval.splits)
    from basic have "g = HasOwnProperty \<or> g = PropertyIsEnumerable \<longrightarrow> ownKey props ''undefined''"
      by auto
    with basic sub have "builtin_call_basic g acc ''undefined'' = Inr True"
      by (cases g) (auto simp: ownKey_def)
    with True g getProp_eq [OF t] show ?thesis by (simp add: builtin_call_def)
  next
    case False
    with call have "builtin_call_basic b props k = Inr True" by (simp add: builtin_call_def)
    from builtin_call_basic_mono [OF this sub own k] False show ?thesis
      by (simp add: builtin_call_def)
  qed
  with b' show ?thesis by (simp add: hasOwnProperty_def)
qed

lemma parse_key_success_form:
  assumes "parse_key k s opts props = Inr rk"
  shows "\<exists>o'. parse s o' (getProp props k) = Inr rk
     \<and> (isUnknownType s \<longrightarrow> hasOwnProperty props k = Inr True)
     \<and> (\<forall>props'. (isUnknownType s \<longrightarrow> hasOwnProperty props' k = Inr True)
           \<longrightarrow> parse_key k s opts props' = parse s o' (getProp props' k))"
proof (cases "isUnknownType s")
  case True
  then have s: "s = UnknownType" by (cases s) auto
  with assms have "hasOwnProperty props k = Inr True" "parse s no_opts (getProp props k) = Inr rk"
    by (auto simp: parse_key.simps split: sum.splits if_splits)
  with s show ?thesis
    by (intro exI [of _ no_opts]) (auto simp: parse_key.simps)
next
  case False
  with assms show ?thesis
    by (auto simp: parse_key.simps split: if_splits)
qed

lemma parse_keys_all_succeed:
  "\<forall>(k, s) \<in> set shape. \<exists>r'. parse_key k s opts props = Inr r' \<Longrightarrow>
   \<exists>r'. parse_keys shape opts props acc = Inr r'"
proof (induction shape arbitrary: acc)
  case Nil
  then show ?case by simp
next
  case (Cons ks rest)
  obtain k s where ks: "ks = (k, s)" by (cases ks)
  with Cons.prems obtain rk where "parse_key k s opts props = Inr rk" by auto
  moreover from Cons.prems have "\<forall>(k, s) \<in> set rest. \<exists>r'. parse_key k s opts props = Inr r'"
    by simp
  ultimately show ?case using Cons.IH ks by simp
qed


lemma parse_keys_fixpoint:
  "\<forall>(k, s) \<in> set shape. \<exists>rk. map_of acc k = Some rk \<and> parse_key k s opts props = Inr rk \<Longrightarrow>
   parse_keys shape opts props acc = Inr (VObj acc)"
proof (induction shape)
  case Nil
  then show ?case by simp
next
  case (Cons ks rest)
  obtain k s where ks: "ks = (k, s)" by (cases ks)
  with Cons.prems obtain rk where rk: "map_of acc k = Some rk" "parse_key k s opts props = Inr rk"
    by auto
  then have "setProp acc k rk = acc"
    by (simp add: setProp_def ownKey_map_of update_triv)
  moreover from Cons.prems
  have "\<forall>(k, s) \<in> set rest. \<exists>rk. map_of acc k = Some rk \<and> parse_key k s opts props = Inr rk"
    by simp
  ultimately show ?case using Cons.IH rk ks by simp
qed

lemma illegalKeys_result:
  assumes "set (map fst acc) = set (map fst props) \<union> set (map fst shape)"
  shows "illegalKeys shape acc = [] \<longleftrightarrow> illegalKeys shape props = []"
  using assms by (auto simp: illegalKeys_def filter_empty_conv)

text \<open>What a successful object validation establishes about the validation of its result.\<close>

lemma object_revalidation:
  assumes d: "distinct (map fst shape)"
    and nk: "\<forall>(k, s) \<in> set shape. \<not> inherited_key k"
    and run: "parse (ObjectType shape so) ov v = Inr r"
  shows "\<exists>acc. r = VObj acc
     \<and> parse (ObjectType shape so) ov r = parse_keys shape (spread so ov) acc acc
     \<and> (\<forall>(k, s) \<in> set shape. \<exists>rk o' x.
           map_of acc k = Some rk \<and> parse s o' x = Inr rk
           \<and> parse_key k s (spread so ov) acc = parse s o' rk)"
proof -
  let ?opts = "spread so ov"
  from parse_object_cases [OF run] obtain props where v: "v = VObj props"
    and loop: "parse_keys shape ?opts props props = Inr r"
    and legal: "truthy (allowUnknown ?opts) \<or> illegalKeys shape props = []"
    by blast
  from parse_keys_success [OF loop d] obtain acc where r: "r = VObj acc"
    and keys: "set (map fst acc) = set (map fst props) \<union> set (map fst shape)"
    and decl: "\<forall>(k, s) \<in> set shape. \<exists>rk. parse_key k s ?opts props = Inr rk \<and> map_of acc k = Some rk"
    and other: "\<forall>k. k \<notin> set (map fst shape) \<longrightarrow> map_of acc k = map_of props k"
    by blast
  from illegalKeys_result [OF keys] legal
  have "parse (ObjectType shape so) ov (VObj acc) = parse_keys shape ?opts acc acc"
    by (auto simp: Let_def)
  moreover have "\<exists>rk o' x. map_of acc k = Some rk \<and> parse s o' x = Inr rk
           \<and> parse_key k s ?opts acc = parse s o' rk" if ks: "(k, s) \<in> set shape" for k s
  proof -
    from decl ks obtain rk where rk: "parse_key k s ?opts props = Inr rk" "map_of acc k = Some rk"
      by auto
    from parse_key_success_form [OF rk(1)] obtain o' where
      o': "parse s o' (getProp props k) = Inr rk"
      "isUnknownType s \<longrightarrow> hasOwnProperty props k = Inr True"
      "\<forall>props'. (isUnknownType s \<longrightarrow> hasOwnProperty props' k = Inr True)
           \<longrightarrow> parse_key k s ?opts props' = parse s o' (getProp props' k)"
      by blast
    from nk ks have notin: "\<not> inherited_key k" by auto
    have decl_not: "key \<notin> set (map fst shape)" if "inherited_key key" for key
      using nk that by auto
    have h: "map_of acc ''hasOwnProperty'' = map_of props ''hasOwnProperty''"
      and t: "map_of acc ''toString'' = map_of props ''toString''"
      using other decl_not by (simp_all add: inherited_key_def object_prototype_def)
    from keys have sub: "fst ` set props \<subseteq> fst ` set acc" by auto
    from rk(2) have own: "k \<in> fst ` set acc" by (metis map_of_eq_None_iff option.distinct(1))
    from notin have "k \<noteq> ''__proto__''" by (auto simp: inherited_key_def)
    with hasOwnProperty_mono [OF _ sub own h t] o'(2)
    have "isUnknownType s \<longrightarrow> hasOwnProperty acc k = Inr True" by blast
    with o'(3) have "parse_key k s ?opts acc = parse s o' (getProp acc k)" by blast
    with getProp_own [OF rk(2)] o'(1) rk(2) show ?thesis by metis
  qed
  ultimately show ?thesis using r by blast
qed

lemma union_candidate_opts: "\<exists>o'. \<forall>v. union_candidate this_opts s v = parse s o' v"
  by (auto simp: union_candidate_def)

lemma revalidation_succeeds:
  "wf_schema n \<Longrightarrow> parse n opts v = Inr r \<Longrightarrow> \<exists>r'. parse n opts r = Inr r'"
proof (induction n arbitrary: opts v r)
  case (ObjectType shape so)
  from ObjectType.prems(1) have d: "distinct (map fst shape)"
    and nk: "\<forall>(k, s) \<in> set shape. \<not> inherited_key k" by auto
  from object_revalidation [OF d nk ObjectType.prems(2)] obtain acc where
    r: "r = VObj acc" and
    again: "parse (ObjectType shape so) opts r = parse_keys shape (spread so opts) acc acc" and
    decl: "\<forall>(k, s) \<in> set shape. \<exists>rk o' x. map_of acc k = Some rk \<and> parse s o' x = Inr rk
           \<and> parse_key k s (spread so opts) acc = parse s o' rk"
    by blast
  have "\<forall>(k, s) \<in> set shape. \<exists>r'. parse_key k s (spread so opts) acc = Inr r'"
  proof (clarify)
    fix k s
    assume ks: "(k, s) \<in> set shape"
    with decl obtain rk o' x where c: "parse s o' x = Inr rk"
      "parse_key k s (spread so opts) acc = parse s o' rk" by blast
    from ks ObjectType.prems(1) have "wf_schema s" by auto
    from ObjectType.IH [OF ks _ this c(1)] c(2)
    show "\<exists>r'. parse_key k s (spread so opts) acc = Inr r'" by simp
  qed
  from parse_keys_all_succeed [OF this] again show ?case by simp
next
  case (UnionType ss uo)
  from UnionType.prems(2) have "parse_union ss uo v [] = Inr r" by simp
  from parse_union_success [OF this] obtain s where
    s: "s \<in> set ss" "union_candidate uo s v = Inr r" by blast
  with UnionType.prems(1) have wf: "wf_schema s" by simp
  obtain o' where o': "\<forall>v. union_candidate uo s v = parse s o' v"
    using union_candidate_opts by blast
  with s(2) have "parse s o' v = Inr r" by simp
  from UnionType.IH [OF s(1) wf this] o' obtain r' where "union_candidate uo s r = Inr r'"
    by auto
  from parse_union_some_success [OF s(1) this] show ?case by simp
qed (auto split: jsval.splits if_splits sum.splits)

lemma revalidation_equal:
  "wf_schema n \<Longrightarrow> stable_schema n \<Longrightarrow> parse n opts v = Inr r \<Longrightarrow> parse n opts r = Inr r"
proof (induction n arbitrary: opts v r)
  case (ObjectType shape so)
  from ObjectType.prems(1) have d: "distinct (map fst shape)"
    and nk: "\<forall>(k, s) \<in> set shape. \<not> inherited_key k" by auto
  from object_revalidation [OF d nk ObjectType.prems(3)] obtain acc where
    r: "r = VObj acc" and
    again: "parse (ObjectType shape so) opts r = parse_keys shape (spread so opts) acc acc" and
    decl: "\<forall>(k, s) \<in> set shape. \<exists>rk o' x. map_of acc k = Some rk \<and> parse s o' x = Inr rk
           \<and> parse_key k s (spread so opts) acc = parse s o' rk"
    by blast
  have "\<forall>(k, s) \<in> set shape. \<exists>rk. map_of acc k = Some rk
      \<and> parse_key k s (spread so opts) acc = Inr rk"
  proof (clarify)
    fix k s
    assume ks: "(k, s) \<in> set shape"
    with decl obtain rk o' x where c: "map_of acc k = Some rk" "parse s o' x = Inr rk"
      "parse_key k s (spread so opts) acc = parse s o' rk" by blast
    from ks ObjectType.prems(1,2) have "wf_schema s" "stable_schema s" by auto
    from ObjectType.IH [OF ks _ this c(2)] c(1,3)
    show "\<exists>rk. map_of acc k = Some rk \<and> parse_key k s (spread so opts) acc = Inr rk" by simp
  qed
  from parse_keys_fixpoint [OF this] again r show ?case by simp
next
  case (UnionType ss uo)
  from UnionType.prems(3) obtain s rest where ss: "ss = s # rest"
    by (cases ss) auto
  show ?case
  proof (cases "union_candidate uo s v")
    case (Inr r0)
    with UnionType.prems(3) ss have r0: "r0 = r" by (simp add: union_candidate_def)
    from UnionType.prems(1,2) ss have wf: "wf_schema s" "stable_schema s" by simp_all
    obtain o' where o': "\<forall>v. union_candidate uo s v = parse s o' v"
      using union_candidate_opts by blast
    with Inr r0 have "parse s o' v = Inr r" by simp
    from UnionType.IH [OF _ wf this] ss o' have "union_candidate uo s r = Inr r"
      by simp
    with ss show ?thesis by (simp add: union_candidate_def)
  next
    case (Inl err)
    with UnionType.prems(3) ss have "parse_union rest uo v ([] @ [message err]) = Inr r"
      by (simp add: union_candidate_def)
    from parse_union_success [OF this] obtain t where
      t: "t \<in> set rest" "union_candidate uo t v = Inr r" by blast
    with UnionType.prems(2) ss have ri: "returns_input t" by simp
    obtain o' where "\<forall>v. union_candidate uo t v = parse t o' v"
      using union_candidate_opts by blast
    with t(2) have "parse t o' v = Inr r" by simp
    from returns_input_unchanged [OF ri this] have "r = v" .
    with UnionType.prems(3) show ?thesis by simp
  qed
qed (auto split: jsval.splits if_splits sum.splits)


lemma strip_undefined_iff [simp]: "strip_undefined x = VUndefined \<longleftrightarrow> x = VUndefined"
  by (cases x) auto

lemma getProp_setProp: "getProp (setProp acc k v) k' = (if k' = k then v else getProp acc k')"
  by (simp add: getProp_def map_of_setProp)

lemma getProp_Cons:
  "getProp ((k0, v0) # acc) k = (if k0 = k then v0 else getProp acc k)"
  by (simp add: getProp_def)

lemma strip_update:
  "k \<in> fst ` set acc \<Longrightarrow> strip_undefined v = strip_undefined (getProp acc k) \<Longrightarrow>
   strip_undefined (VObj (AList.update k v acc)) = strip_undefined (VObj acc)"
proof (induction acc)
  case Nil
  then show ?case by simp
next
  case (Cons kv acc)
  obtain k0 v0 where kv: "kv = (k0, v0)" by (cases kv)
  show ?case
  proof (cases "k0 = k")
    case True
    with Cons.prems kv have "strip_undefined v = strip_undefined v0" by (simp add: getProp_Cons)
    moreover from this have "v = VUndefined \<longleftrightarrow> v0 = VUndefined"
      by (metis strip_undefined_iff)
    ultimately show ?thesis using True kv by simp
  next
    case False
    with Cons.prems kv have "k \<in> fst ` set acc"
      "strip_undefined v = strip_undefined (getProp acc k)"
      by (auto simp: getProp_Cons)
    from Cons.IH [OF this] False kv show ?thesis by simp
  qed
qed

lemma strip_insert_index:
  "strip_undefined (VObj (insert_index n (k, VUndefined) acc)) = strip_undefined (VObj acc)"
  by (induction acc) (auto split: option.splits)

lemma strip_setProp:
  assumes "\<not> inherited_key k"
    and "strip_undefined v = strip_undefined (getProp acc k)"
  shows "strip_undefined (VObj (setProp acc k v)) = strip_undefined (VObj acc)"
proof (cases "ownKey acc k")
  case True
  then have "k \<in> fst ` set acc" by (simp add: ownKey_def)
  from strip_update [OF this assms(2)] True show ?thesis by (simp add: setProp_def)
next
  case False
  then have "map_of acc k = None" by (simp add: ownKey_map_of)
  from getProp_absent [OF assms(1) this] assms(2) have "v = VUndefined" by simp
  with False strip_insert_index [of _ k acc] show ?thesis
    by (auto simp: setProp_def split: option.splits)
qed

lemma parse_keys_strip:
  assumes child: "\<forall>(k, s) \<in> set shape. \<not> inherited_key k \<and> (\<forall>rk. parse_key k s opts props = Inr rk
            \<longrightarrow> strip_undefined rk = strip_undefined (getProp props k))"
    and inv: "strip_undefined (VObj acc) = strip_undefined (VObj props)"
      "\<forall>k. strip_undefined (getProp acc k) = strip_undefined (getProp props k)"
    and run: "parse_keys shape opts props acc = Inr r"
  shows "strip_undefined r = strip_undefined (VObj props)"
  using assms
proof (induction shape arbitrary: acc)
  case Nil
  then show ?case by auto
next
  case (Cons ks rest)
  obtain k s where ks: "ks = (k, s)" by (cases ks)
  from Cons.prems(4) ks obtain rk where
    rk: "parse_key k s opts props = Inr rk" and
    rest: "parse_keys rest opts props (setProp acc k rk) = Inr r"
    by (auto split: sum.splits)
  from Cons.prems(1) ks rk have nk: "\<not> inherited_key k"
    and eq: "strip_undefined rk = strip_undefined (getProp props k)"
    by auto
  with Cons.prems(3) have "strip_undefined rk = strip_undefined (getProp acc k)" by simp
  from strip_setProp [OF nk this] Cons.prems(2)
  have i1: "strip_undefined (VObj (setProp acc k rk)) = strip_undefined (VObj props)" by simp
  from eq Cons.prems(3)
  have i2: "\<forall>k'. strip_undefined (getProp (setProp acc k rk) k') = strip_undefined (getProp props k')"
    by (simp add: getProp_setProp)
  from Cons.prems(1) have "\<forall>(k, s) \<in> set rest. \<not> inherited_key k \<and> (\<forall>rk. parse_key k s opts props = Inr rk
            \<longrightarrow> strip_undefined rk = strip_undefined (getProp props k))" by simp
  from Cons.IH [OF this i1 i2 rest] show ?case .
qed

lemma result_strip:
  "wf_schema n \<Longrightarrow> parse n opts v = Inr r \<Longrightarrow> strip_undefined r = strip_undefined v"
proof (induction n arbitrary: opts v r)
  case (ObjectType shape so)
  from parse_object_cases [OF ObjectType.prems(2)] obtain props where
    v: "v = VObj props" and
    loop: "parse_keys shape (spread so opts) props props = Inr r" by blast
  have "\<forall>(k, s) \<in> set shape. \<not> inherited_key k \<and> (\<forall>rk. parse_key k s (spread so opts) props = Inr rk
            \<longrightarrow> strip_undefined rk = strip_undefined (getProp props k))"
  proof (clarify, intro conjI allI impI)
    fix k s
    assume ks: "(k, s) \<in> set shape"
    with ObjectType.prems(1) show "\<not> inherited_key k" by auto
    fix rk
    assume rk: "parse_key k s (spread so opts) props = Inr rk"
    from parse_key_success_form [OF rk] obtain o' where
      "parse s o' (getProp props k) = Inr rk" by blast
    moreover from ks ObjectType.prems(1) have "wf_schema s" by auto
    ultimately show "strip_undefined rk = strip_undefined (getProp props k)"
      using ObjectType.IH [OF ks] by simp
  qed
  from parse_keys_strip [OF this _ _ loop] v show ?case by simp
next
  case (UnionType ss uo)
  from UnionType.prems(2) have "parse_union ss uo v [] = Inr r" by simp
  from parse_union_success [OF this] obtain s where
    s: "s \<in> set ss" "union_candidate uo s v = Inr r" by blast
  obtain o' where "\<forall>v. union_candidate uo s v = parse s o' v"
    using union_candidate_opts by blast
  with s(2) have "parse s o' v = Inr r" by simp
  moreover from s(1) UnionType.prems(1) have "wf_schema s" by simp
  ultimately show ?case using UnionType.IH [OF s(1)] by simp
qed (auto split: jsval.splits if_splits sum.splits)

text \<open>
  C9, as amended. Take a schema whose shapes have distinct keys, none of which names a
  property of \<open>Object.prototype\<close>. When a validation succeeds with the result \<open>r\<close>, the
  validation of \<open>r\<close> by the same node succeeds, and its result equals \<open>r\<close> up to properties
  that hold \<open>undefined\<close>. The result is \<open>r\<close> itself when, outside array and intersection
  nodes, every candidate of a union but the first returns its input (\<open>stable_schema\<close>).
\<close>

theorem revalidation:
  assumes "wf_schema n" and "parse n opts v = Inr r"
  shows "\<exists>r'. parse n opts r = Inr r' \<and> strip_undefined r' = strip_undefined r
           \<and> (stable_schema n \<longrightarrow> r' = r)"
proof -
  from revalidation_succeeds [OF assms] obtain r' where r': "parse n opts r = Inr r'" ..
  from result_strip [OF assms(1) r'] have "strip_undefined r' = strip_undefined r" .
  moreover have "r' = r" if "stable_schema n"
    using revalidation_equal [OF assms(1) that assms(2)] r' by simp
  ultimately show ?thesis using r' by blast
qed

theorem revalidation_witness:
  "wf_schema (ObjectType [(''a'', UnionType [ObjectType
        [(''b'', UnionType [NumberType, UndefinedType] \<lparr>strict = Unset\<rparr>)] no_opts, UndefinedType]
        \<lparr>strict = Unset\<rparr>), (''c'', ArrayType NumberType)] no_opts)
   \<and> stable_schema (ObjectType [(''a'', UnionType [ObjectType
        [(''b'', UnionType [NumberType, UndefinedType] \<lparr>strict = Unset\<rparr>)] no_opts, UndefinedType]
        \<lparr>strict = Unset\<rparr>), (''c'', ArrayType NumberType)] no_opts)
   \<and> parse (ObjectType [(''a'', UnionType [ObjectType
        [(''b'', UnionType [NumberType, UndefinedType] \<lparr>strict = Unset\<rparr>)] no_opts, UndefinedType]
        \<lparr>strict = Unset\<rparr>), (''c'', ArrayType NumberType)] no_opts) no_opts
        (VObj [(''c'', VArr [VNum 1]), (''a'', VObj [])])
     = Inr (VObj [(''c'', VArr [VNum 1]), (''a'', VObj [(''b'', VUndefined)])])
   \<and> parse (ObjectType [(''a'', UnionType [ObjectType
        [(''b'', UnionType [NumberType, UndefinedType] \<lparr>strict = Unset\<rparr>)] no_opts, UndefinedType]
        \<lparr>strict = Unset\<rparr>), (''c'', ArrayType NumberType)] no_opts) no_opts
        (VObj [(''c'', VArr [VNum 1]), (''a'', VObj [(''b'', VUndefined)])])
     = Inr (VObj [(''c'', VArr [VNum 1]), (''a'', VObj [(''b'', VUndefined)])])"
proof -
  let ?n = "ObjectType [(''a'', UnionType [ObjectType
        [(''b'', UnionType [NumberType, UndefinedType] \<lparr>strict = Unset\<rparr>)] no_opts, UndefinedType]
        \<lparr>strict = Unset\<rparr>), (''c'', ArrayType NumberType)] no_opts"
  let ?v = "VObj [(''c'', VArr [VNum 1]), (''a'', VObj [])]"
  let ?r = "VObj [(''c'', VArr [VNum 1]), (''a'', VObj [(''b'', VUndefined)])]"
  have wf: "wf_schema ?n" by code_simp
  have st: "stable_schema ?n" by simp
  have run: "parse ?n no_opts ?v = Inr ?r" by code_simp
  from revalidation [OF wf run] st have "parse ?n no_opts ?r = Inr ?r" by auto
  with wf st run show ?thesis by blast
qed

text \<open>
  C9, as stated, fails. The second candidate of the union accepts the empty object and
  returns it with the key \<open>a\<close>; the first candidate, which requires \<open>a\<close>, then accepts that
  result and returns it with the key \<open>b\<close>. With declared keys that \<open>Object.prototype\<close>
  defines, the added property holds an inherited function.
\<close>

theorem revalidation_counterexample:
  "parse (UnionType [ObjectType [(''a'', UnknownType), (''b'', UndefinedType)] no_opts,
                     ObjectType [(''a'', UnionType [StringType, UndefinedType] \<lparr>strict = Unset\<rparr>)] no_opts]
            \<lparr>strict = Unset\<rparr>) no_opts (VObj [])
     = Inr (VObj [(''a'', VUndefined)])
   \<and> parse (UnionType [ObjectType [(''a'', UnknownType), (''b'', UndefinedType)] no_opts,
                     ObjectType [(''a'', UnionType [StringType, UndefinedType] \<lparr>strict = Unset\<rparr>)] no_opts]
            \<lparr>strict = Unset\<rparr>) no_opts (VObj [(''a'', VUndefined)])
     = Inr (VObj [(''a'', VUndefined), (''b'', VUndefined)])
   \<and> VObj [(''a'', VUndefined), (''b'', VUndefined)] \<noteq> VObj [(''a'', VUndefined)]
   \<and> parse (UnionType
          [ObjectType [(''constructor'', UnknownType),
                       (''toString'', UnionType [UnknownType, UndefinedType] \<lparr>strict = Unset\<rparr>)] no_opts,
           ObjectType [(''constructor'', UnionType [UnknownType, UndefinedType] \<lparr>strict = Unset\<rparr>)]
             no_opts]
          \<lparr>strict = Unset\<rparr>) no_opts (VObj [])
     = Inr (VObj [(''constructor'', VFunction Constructor)])
   \<and> parse (UnionType
          [ObjectType [(''constructor'', UnknownType),
                       (''toString'', UnionType [UnknownType, UndefinedType] \<lparr>strict = Unset\<rparr>)] no_opts,
           ObjectType [(''constructor'', UnionType [UnknownType, UndefinedType] \<lparr>strict = Unset\<rparr>)]
             no_opts]
          \<lparr>strict = Unset\<rparr>) no_opts (VObj [(''constructor'', VFunction Constructor)])
     = Inr (VObj [(''constructor'', VFunction Constructor), (''toString'', VFunction ToString)])"
  by code_simp

end
